theory Spec2Isabelle
  imports Main "HOL-Library.AList"
begin

section \<open>Data model of the plugin manager\<close>

text \<open>
  The package keeps its state in package-level variables and in heap objects that
  point at each other.  Pointers are natural numbers; a non-nil Go pointer always
  refers to an object, so every heap is a total function from pointers to field
  values.  An interface value is \<open>None\<close> when it is nil and otherwise carries its
  dynamic type and the pointer.
\<close>

type_synonym config_ptr = nat
type_synonym context_ptr = nat
type_synonym runner_ptr = nat
type_synonym wrapper_ptr = nat

text \<open>
  \<open>pipeline.Context\<close> is an interface: its value is a pointer to a \<open>ContextImp\<close>
  or some other implementation, which the type assertion of
  \<open>DeleteLogstoreConfig\<close> tells apart.
\<close>

datatype context_value = ContextImp context_ptr | OtherContext

text \<open>
  \<open>PluginRunner\<close> is an interface with the two implementations that
  \<open>DeleteLogstoreConfig\<close> switches on.
\<close>

datatype runner_value = pluginv1Runner runner_ptr | pluginv2Runner runner_ptr

fun runner_of :: "runner_value \<Rightarrow> runner_ptr" where
  "runner_of (pluginv1Runner r) = r"
| "runner_of (pluginv2Runner r) = r"

record logstore_config =
  Context :: "context_value option"
  PluginRunner :: "runner_value option"
  ConfigName :: string
  ConfigNameWithSuffix :: string

text \<open>
  Modelled from the spec: the declarations of the two runner types are not part of
  the sources at hand.  Both hold five collections of plugin instances by role and
  a back-reference to the pipeline; \<open>IsWithInputPlugin()\<close> is a capability of the
  runner whose answer is recorded here as a field.
\<close>

record plugin_runner =
  MetricPlugins :: "wrapper_ptr list"
  ServicePlugins :: "wrapper_ptr list"
  ProcessorPlugins :: "wrapper_ptr list"
  AggregatorPlugins :: "wrapper_ptr list"
  FlusherPlugins :: "wrapper_ptr list"
  LogstoreConfig :: "config_ptr option"
  IsWithInputPlugin :: bool

text \<open>
  The package state.  \<open>LogtailConfig\<close> is a Go map that \<open>StopAllPipelines\<close>
  ranges over, so it is an association list: \<open>map_of\<close> is the lookup, the order of
  the list is the order of one iteration (Go leaves that order open, and every
  list with the same entries is a state of its own here).  The map is taken as
  allocated; the declaration in this file leaves that to the initialisation of
  the package.  \<open>LastUnsendBuffer\<close>
  maps a name to an interface value, which may itself be nil.  \<open>Config\<close> is the
  \<open>Config\<close> field of every plugin wrapper, \<open>logstoreC\<close> the field of every
  \<open>ContextImp\<close>.  \<open>goroutines\<close> lists the goroutines started by \<open>timeoutStop\<close>
  that have not yet run their last, lock-protected block.  \<open>alarms\<close> collects
  the alarm types of the \<open>logger.Error\<close> calls.
\<close>

record manager =
  LogtailConfig :: "(string \<times> config_ptr) list"
  ToStartPipelineConfigWithInput :: "config_ptr option"
  ToStartPipelineConfigWithoutInput :: "config_ptr option"
  DisabledLogtailConfig :: "config_ptr set"
  LastUnsendBuffer :: "string \<rightharpoonup> runner_value option"
  configs :: "config_ptr \<Rightarrow> logstore_config"
  logstoreC :: "context_ptr \<Rightarrow> config_ptr option"
  runners :: "runner_ptr \<Rightarrow> plugin_runner"
  Config :: "wrapper_ptr \<Rightarrow> config_ptr option"
  goroutines :: "(config_ptr \<times> bool) list"
  alarms :: "string list"

text \<open>
  A call either returns to its caller or the process dies: a panic in a goroutine
  that has no deferred \<open>recover\<close> of its own terminates the program.
\<close>

datatype 'a outcome = Returned 'a | ProcessCrashed

text \<open>
  Modelled from the spec: \<open>LogstoreConfig.Stop\<close> and \<open>LogstoreConfig.Start\<close> are
  not part of the sources at hand.  A stop procedure may return, block (possibly
  for ever) or panic; what \<open>timeoutStop\<close> observes of it is which case of its
  \<open>select\<close> fires.  \<open>DoneFirst\<close>: the procedure returned and \<open>done\<close> was closed
  before the 30-second timer fired.  \<open>DeadlineFirst\<close>: the timer fired while the
  procedure was still running.  \<open>StopPanics\<close>: the procedure panicked while the
  caller was waiting.  A start procedure returns or panics.  Neither writes the
  variables and fields modelled here.
\<close>

datatype stop_outcome = DoneFirst | DeadlineFirst | StopPanics

text \<open>
  The goroutine of \<open>timeoutStop\<close> runs on its own, and nothing orders its last
  block (lines 128-139) with the caller's next lock-protected block: the stop
  procedure may return just after the timer has fired.  \<open>BeforeLastBlock\<close>: when
  the caller goes on, the goroutine has still to run its last block.
  \<open>PastLastBlock\<close>: by then the goroutine has run lines 130-134, found the
  pipeline not in the disabled set and returned.
\<close>

datatype goroutine_progress = BeforeLastBlock | PastLastBlock

datatype start_outcome = StartReturns | StartPanics

section \<open>panicRecover\<close>

text \<open>
  The deferred \<open>panicRecover\<close> of a caller that panicked logs one error with the
  alarm type \<open>PLUGIN_RUNTIME_ALARM\<close> and the stack trace; the function then
  returns the zero value of its result type.
\<close>

definition panicRecover :: "manager \<Rightarrow> manager" where
  "panicRecover s = s\<lparr>alarms := alarms s @ [''PLUGIN_RUNTIME_ALARM'']\<rparr>"

section \<open>DeleteLogstoreConfig\<close>

text \<open>
  One loop \<open>for _, obj := range plugins { obj.Config = nil }\<close>.  The collections
  hold pointers to plugin instances, none of them nil.
\<close>

primrec clearConfig ::
  "wrapper_ptr list \<Rightarrow> (wrapper_ptr \<Rightarrow> config_ptr option) \<Rightarrow> (wrapper_ptr \<Rightarrow> config_ptr option)"
where
  "clearConfig [] h = h"
| "clearConfig (obj # objs) h = clearConfig objs (h(obj := None))"

text \<open>The body shared by the two branches of the type switch on the runner.\<close>

definition clearRunner :: "runner_ptr \<Rightarrow> manager \<Rightarrow> manager" where
  "clearRunner r s =
     (let runner = runners s r;
          h1 = clearConfig (MetricPlugins runner) (Config s);
          h2 = clearConfig (ServicePlugins runner) h1;
          h3 = clearConfig (ProcessorPlugins runner) h2;
          h4 = clearConfig (AggregatorPlugins runner) h3;
          h5 = clearConfig (FlusherPlugins runner) h4
      in s\<lparr>Config := h5, runners := (runners s)(r := runner\<lparr>LogstoreConfig := None\<rparr>)\<rparr>)"

definition DeleteLogstoreConfig :: "config_ptr \<Rightarrow> bool \<Rightarrow> manager \<Rightarrow> manager" where
  "DeleteLogstoreConfig config removedFlag s =
     (let s1 = (case Context (configs s config) of
                  Some (ContextImp actualObject) \<Rightarrow>
                    s\<lparr>logstoreC := (logstoreC s)(actualObject := None)\<rparr>
                | _ \<Rightarrow> s);
          s2 = s1\<lparr>configs := (configs s1)(config := (configs s1 config)\<lparr>Context := None\<rparr>)\<rparr>;
          s3 = (case PluginRunner (configs s2 config) of
                  Some (pluginv1Runner runner) \<Rightarrow> clearRunner runner s2
                | Some (pluginv2Runner runner) \<Rightarrow> clearRunner runner s2
                | None \<Rightarrow> s2);
          s4 = (if \<not> removedFlag
                then s3\<lparr>LastUnsendBuffer :=
                         (LastUnsendBuffer s3)(ConfigName (configs s3 config) \<mapsto>
                                                 PluginRunner (configs s3 config))\<rparr>
                else s3)
      in s4\<lparr>configs := (configs s4)(config := (configs s4 config)\<lparr>PluginRunner := None\<rparr>)\<rparr>)"

definition DeleteLogstoreConfigFromLogtailConfig :: "string \<Rightarrow> bool \<Rightarrow> manager \<Rightarrow> manager" where
  "DeleteLogstoreConfigFromLogtailConfig configName removedFlag s =
     (case map_of (LogtailConfig s) configName of
        Some config \<Rightarrow>
          (let s1 = DeleteLogstoreConfig config removedFlag s
           in s1\<lparr>LogtailConfig := AList.delete configName (LogtailConfig s1)\<rparr>)
      | None \<Rightarrow> s)"

section \<open>timeoutStop and the goroutine it starts\<close>

text \<open>
  The goroutines that have their last block to run once \<open>timeoutStop\<close> has
  returned.  A goroutine that is past its last block has changed nothing and is
  gone.  That can only be when the pipeline is not in the disabled set; a last
  block that finds the pipeline in the set is the step \<open>goroutineExit\<close> below
  (when it runs after the caller's insert and before the caller's return, it
  commutes with the rest of the call).  A registered pipeline is in the set
  before the call in no reachable state.
\<close>

definition pending_after ::
  "config_ptr \<Rightarrow> bool \<Rightarrow> goroutine_progress \<Rightarrow> manager \<Rightarrow> (config_ptr \<times> bool) list"
where
  "pending_after config removedFlag progress s =
     (if progress = PastLastBlock \<and> config \<notin> DisabledLogtailConfig s then goroutines s
      else goroutines s @ [(config, removedFlag)])"

text \<open>
  The goroutine first evaluates \<open>config.Context.GetRuntimeContext()\<close> for its log
  line: on a nil \<open>Context\<close> that is a panic inside the goroutine, where nothing
  recovers it.  The same holds for a panic of \<open>config.Stop\<close>.  Otherwise the
  caller gets \<open>true\<close> when \<open>done\<close> is closed first and \<open>false\<close> when the timer
  fires first.
\<close>

definition timeoutStop ::
  "config_ptr \<Rightarrow> bool \<Rightarrow> stop_outcome \<Rightarrow> goroutine_progress \<Rightarrow> manager
     \<Rightarrow> (bool \<times> manager) outcome"
where
  "timeoutStop config removedFlag stop progress s =
     (case Context (configs s config) of
        None \<Rightarrow> ProcessCrashed
      | Some _ \<Rightarrow>
          (case stop of
             StopPanics \<Rightarrow> ProcessCrashed
           | DoneFirst \<Rightarrow>
               Returned (True, s\<lparr>goroutines := pending_after config removedFlag progress s\<rparr>)
           | DeadlineFirst \<Rightarrow>
               Returned (False, s\<lparr>goroutines := pending_after config removedFlag progress s\<rparr>)))"

text \<open>
  The last block of the goroutine, run under \<open>DisabledLogtailConfigLock\<close> once
  \<open>config.Stop\<close> has returned: nothing when the pipeline is not in the disabled
  set, the teardown and the removal from the set otherwise.  It is a step of its
  own, which the scheduler runs at some point after \<open>done\<close> has been closed,
  while or after the caller goes on; for a stop procedure that blocks for ever
  it never runs.
\<close>

definition goroutineExit :: "config_ptr \<Rightarrow> bool \<Rightarrow> manager \<Rightarrow> manager" where
  "goroutineExit config removedFlag s =
     (let s0 = s\<lparr>goroutines := remove1 (config, removedFlag) (goroutines s)\<rparr>
      in if config \<notin> DisabledLogtailConfig s0 then s0
         else (let s1 = DeleteLogstoreConfig config removedFlag s0
               in s1\<lparr>DisabledLogtailConfig := DisabledLogtailConfig s1 - {config}\<rparr>))"

section \<open>Stop\<close>

text \<open>
  The lock-protected blocks of \<open>Stop\<close> after \<open>timeoutStop\<close>.  On a timeout the
  alarm is logged and the pipeline is put into the disabled set under
  \<open>DisabledLogtailConfigLock\<close>; then, under \<open>LogtailConfigLock\<close>, the name is
  deleted.  Otherwise teardown and deletion happen in one block under
  \<open>LogtailConfigLock\<close>.
\<close>

definition quarantine :: "config_ptr \<Rightarrow> manager \<Rightarrow> manager" where
  "quarantine config s =
     s\<lparr>alarms := alarms s @ [''CONFIG_STOP_TIMEOUT_ALARM''],
       DisabledLogtailConfig := insert config (DisabledLogtailConfig s)\<rparr>"

definition Stop_unregister :: "string \<Rightarrow> manager \<Rightarrow> manager" where
  "Stop_unregister configName s = s\<lparr>LogtailConfig := AList.delete configName (LogtailConfig s)\<rparr>"

definition Stop_delete :: "config_ptr \<Rightarrow> string \<Rightarrow> bool \<Rightarrow> manager \<Rightarrow> manager" where
  "Stop_delete config configName removedFlag s =
     (let s1 = DeleteLogstoreConfig config removedFlag s
      in s1\<lparr>LogtailConfig := AList.delete configName (LogtailConfig s1)\<rparr>)"

text \<open>
  The result is the returned \<open>error\<close> (\<open>None\<close> is nil) and the state.  Both log
  calls after \<open>timeoutStop\<close> evaluate \<open>config.Context.GetRuntimeContext()\<close>; on a
  nil \<open>Context\<close> the caller panics, \<open>panicRecover\<close> runs and \<open>Stop\<close> returns nil.
\<close>

definition Stop ::
  "string \<Rightarrow> bool \<Rightarrow> (config_ptr \<Rightarrow> stop_outcome) \<Rightarrow> (config_ptr \<Rightarrow> goroutine_progress)
     \<Rightarrow> manager \<Rightarrow> (string option \<times> manager) outcome"
where
  "Stop configName removedFlag stopProc schedule s =
     (case map_of (LogtailConfig s) configName of
        Some config \<Rightarrow>
          (case timeoutStop config removedFlag (stopProc config) (schedule config) s of
             ProcessCrashed \<Rightarrow> ProcessCrashed
           | Returned (hasStopped, s1) \<Rightarrow>
               if \<not> hasStopped then
                 (case Context (configs s1 config) of
                    None \<Rightarrow> Returned (None, panicRecover s1)
                  | Some _ \<Rightarrow>
                      Returned (None, Stop_unregister configName (quarantine config s1)))
               else
                 (case Context (configs s1 config) of
                    None \<Rightarrow> Returned (None, panicRecover s1)
                  | Some _ \<Rightarrow>
                      Returned (None, Stop_delete config configName removedFlag s1)))
      | None \<Rightarrow> Returned (Some (''config not found: '' @ configName), s))"

text \<open>
  The package states that another goroutine can observe during one call of
  \<open>Stop\<close>: the state at entry and the state after each lock-protected block.
\<close>

definition Stop_states ::
  "string \<Rightarrow> bool \<Rightarrow> (config_ptr \<Rightarrow> stop_outcome) \<Rightarrow> (config_ptr \<Rightarrow> goroutine_progress)
     \<Rightarrow> manager \<Rightarrow> manager list"
where
  "Stop_states configName removedFlag stopProc schedule s =
     (case map_of (LogtailConfig s) configName of
        Some config \<Rightarrow>
          (case timeoutStop config removedFlag (stopProc config) (schedule config) s of
             ProcessCrashed \<Rightarrow> [s]
           | Returned (hasStopped, s1) \<Rightarrow>
               if \<not> hasStopped then
                 (case Context (configs s1 config) of
                    None \<Rightarrow> [s, s1, panicRecover s1]
                  | Some _ \<Rightarrow>
                      [s, s1, quarantine config s1,
                       Stop_unregister configName (quarantine config s1)])
               else
                 (case Context (configs s1 config) of
                    None \<Rightarrow> [s, s1, panicRecover s1]
                  | Some _ \<Rightarrow> [s, s1, Stop_delete config configName removedFlag s1]))
      | None \<Rightarrow> [s])"

section \<open>Start\<close>

text \<open>
  The with-input slot is tested first.  The pipeline's own \<open>Start()\<close> runs before
  the registration; when it panics, \<open>panicRecover\<close> runs and \<open>Start\<close> returns nil
  with the registry and the slot as they were.
\<close>

definition loadedConfigName :: "manager \<Rightarrow> string" where
  "loadedConfigName s =
     (case ToStartPipelineConfigWithInput s of
        Some p \<Rightarrow> ConfigNameWithSuffix (configs s p)
      | None \<Rightarrow> [])
     @ (case ToStartPipelineConfigWithoutInput s of
          Some q \<Rightarrow> '' '' @ ConfigNameWithSuffix (configs s q)
        | None \<Rightarrow> [])"

definition Start_unmatched :: "string \<Rightarrow> manager \<Rightarrow> (string option \<times> manager) outcome" where
  "Start_unmatched configName s =
     Returned (Some (''config unmatch with the loaded pipeline: given '' @ configName
                       @ '', expect '' @ loadedConfigName s), s)"

definition Start_withoutInput ::
  "string \<Rightarrow> (config_ptr \<Rightarrow> start_outcome) \<Rightarrow> manager \<Rightarrow> (string option \<times> manager) outcome"
where
  "Start_withoutInput configName startProc s =
     (case ToStartPipelineConfigWithoutInput s of
        Some q \<Rightarrow>
          if ConfigNameWithSuffix (configs s q) = configName then
            (case startProc q of
               StartPanics \<Rightarrow> Returned (None, panicRecover s)
             | StartReturns \<Rightarrow>
                 Returned (None,
                   s\<lparr>LogtailConfig :=
                       AList.update (ConfigNameWithSuffix (configs s q)) q (LogtailConfig s),
                     ToStartPipelineConfigWithoutInput := None\<rparr>))
          else Start_unmatched configName s
      | None \<Rightarrow> Start_unmatched configName s)"

definition Start ::
  "string \<Rightarrow> (config_ptr \<Rightarrow> start_outcome) \<Rightarrow> manager \<Rightarrow> (string option \<times> manager) outcome"
where
  "Start configName startProc s =
     (case ToStartPipelineConfigWithInput s of
        Some p \<Rightarrow>
          if ConfigNameWithSuffix (configs s p) = configName then
            (case startProc p of
               StartPanics \<Rightarrow> Returned (None, panicRecover s)
             | StartReturns \<Rightarrow>
                 Returned (None,
                   s\<lparr>LogtailConfig :=
                       AList.update (ConfigNameWithSuffix (configs s p)) p (LogtailConfig s),
                     ToStartPipelineConfigWithInput := None\<rparr>))
          else Start_withoutInput configName startProc s
      | None \<Rightarrow> Start_withoutInput configName startProc s)"

section \<open>StopAllPipelines\<close>

text \<open>
  The first loop ranges over \<open>LogtailConfig\<close> and collects the names to delete.
  \<open>IsWithInputPlugin()\<close> on a nil \<open>PluginRunner\<close> and \<open>GetRuntimeContext()\<close> on a
  nil \<open>Context\<close> panic in the caller; the loop is then left where it stands.
\<close>

datatype loop_result = LoopDone "string list" manager | LoopPanicked manager | LoopCrashed

fun StopAll_loop ::
  "bool \<Rightarrow> (config_ptr \<Rightarrow> stop_outcome) \<Rightarrow> (config_ptr \<Rightarrow> goroutine_progress)
     \<Rightarrow> (string \<times> config_ptr) list \<Rightarrow> string list \<Rightarrow> manager \<Rightarrow> loop_result"
where
  "StopAll_loop withInput stopProc schedule [] toDeleteConfigNames s = LoopDone toDeleteConfigNames s"
| "StopAll_loop withInput stopProc schedule ((configName, logstoreConfig) # rest) toDeleteConfigNames s =
     (case PluginRunner (configs s logstoreConfig) of
        None \<Rightarrow> LoopPanicked s
      | Some runner \<Rightarrow>
          if (if withInput then IsWithInputPlugin (runners s (runner_of runner))
              else \<not> IsWithInputPlugin (runners s (runner_of runner)))
          then
            (case Context (configs s logstoreConfig) of
               None \<Rightarrow> LoopPanicked s
             | Some _ \<Rightarrow>
                 (case timeoutStop logstoreConfig True (stopProc logstoreConfig) (schedule logstoreConfig) s of
                    ProcessCrashed \<Rightarrow> LoopCrashed
                  | Returned (hasStopped, s1) \<Rightarrow>
                      if \<not> hasStopped then
                        (case Context (configs s1 logstoreConfig) of
                           None \<Rightarrow> LoopPanicked s1
                         | Some _ \<Rightarrow>
                             StopAll_loop withInput stopProc schedule rest
                               (toDeleteConfigNames @ [configName]) (quarantine logstoreConfig s1))
                      else
                        StopAll_loop withInput stopProc schedule rest
                          (toDeleteConfigNames @ [configName])
                          (DeleteLogstoreConfig logstoreConfig True s1)))
          else StopAll_loop withInput stopProc schedule rest toDeleteConfigNames s)"

text \<open>
  The second loop deletes the collected names.  After a recovered panic of the
  first loop it is not reached.
\<close>

definition StopAllPipelines ::
  "bool \<Rightarrow> (config_ptr \<Rightarrow> stop_outcome) \<Rightarrow> (config_ptr \<Rightarrow> goroutine_progress) \<Rightarrow> manager
     \<Rightarrow> (string option \<times> manager) outcome"
where
  "StopAllPipelines withInput stopProc schedule s =
     (case StopAll_loop withInput stopProc schedule (LogtailConfig s) [] s of
        LoopCrashed \<Rightarrow> ProcessCrashed
      | LoopPanicked s1 \<Rightarrow> Returned (None, panicRecover s1)
      | LoopDone toDeleteConfigNames s1 \<Rightarrow>
          Returned (None, s1\<lparr>LogtailConfig := fold AList.delete toDeleteConfigNames (LogtailConfig s1)\<rparr>))"

section \<open>Notions used by the properties\<close>

text \<open>The plugin instances of a runner, over its five collections.\<close>

definition pluginInstances :: "plugin_runner \<Rightarrow> wrapper_ptr list" where
  "pluginInstances runner =
     MetricPlugins runner @ ServicePlugins runner @ ProcessorPlugins runner
       @ AggregatorPlugins runner @ FlusherPlugins runner"

text \<open>A staging slot holds a pipeline whose name-with-suffix is the given name.\<close>

definition staged :: "string \<Rightarrow> config_ptr option \<Rightarrow> manager \<Rightarrow> bool" where
  "staged configName slot s =
     (case slot of None \<Rightarrow> False | Some p \<Rightarrow> ConfigNameWithSuffix (configs s p) = configName)"

text \<open>
  Every registry entry stands under the name-with-suffix of its pipeline, which is
  the key \<open>Start\<close> registers it under.
\<close>

definition registered_by_name :: "manager \<Rightarrow> bool" where
  "registered_by_name s =
     list_all (\<lambda>(n, p). ConfigNameWithSuffix (configs s p) = n) (LogtailConfig s)"

text \<open>
  A pipeline is live while it has its context and its runner, that is, until
  \<open>DeleteLogstoreConfig\<close> has run on it.
\<close>

definition live :: "manager \<Rightarrow> config_ptr \<Rightarrow> bool" where
  "live s p = (Context (configs s p) \<noteq> None \<and> PluginRunner (configs s p) \<noteq> None)"

text \<open>What \<open>IsWithInputPlugin()\<close> answers for the runner of a live pipeline.\<close>

definition withInputPlugin :: "manager \<Rightarrow> config_ptr \<Rightarrow> bool" where
  "withInputPlugin s p =
     (case PluginRunner (configs s p) of
        Some runner \<Rightarrow> IsWithInputPlugin (runners s (runner_of runner))
      | None \<Rightarrow> False)"

text \<open>No registered pipeline is in the disabled set.\<close>

definition disabled_not_registered :: "manager \<Rightarrow> bool" where
  "disabled_not_registered s =
     list_all (\<lambda>(n, p). p \<notin> DisabledLogtailConfig s) (LogtailConfig s)"

text \<open>
  The registry as the package keeps it: a Go map has every key once, every entry
  stands under its own name-with-suffix, and every registered pipeline is live.
\<close>

definition registry_ok :: "manager \<Rightarrow> bool" where
  "registry_ok s =
     (distinct (map fst (LogtailConfig s)) \<and> registered_by_name s
      \<and> list_all (\<lambda>(n, p). live s p) (LogtailConfig s))"

text \<open>
  What one run of the first loop of \<open>StopAllPipelines\<close> may change: the registry
  and the staging slots stay, only the pipelines of \<open>touched\<close> are written and
  only they enter the disabled set, and no name-with-suffix and no answer of
  \<open>IsWithInputPlugin()\<close> changes.
\<close>

definition only_touches :: "config_ptr set \<Rightarrow> manager \<Rightarrow> manager \<Rightarrow> bool" where
  "only_touches touched s s' =
     (LogtailConfig s' = LogtailConfig s
      \<and> ToStartPipelineConfigWithInput s' = ToStartPipelineConfigWithInput s
      \<and> ToStartPipelineConfigWithoutInput s' = ToStartPipelineConfigWithoutInput s
      \<and> (\<forall>q. q \<notin> touched \<longrightarrow> configs s' q = configs s q)
      \<and> (\<forall>q. ConfigNameWithSuffix (configs s' q) = ConfigNameWithSuffix (configs s q))
      \<and> DisabledLogtailConfig s' \<subseteq> DisabledLogtailConfig s \<union> touched
      \<and> (\<forall>r. IsWithInputPlugin (runners s' r) = IsWithInputPlugin (runners s r)))"

section \<open>The lifecycle of the package state\<close>

text \<open>
  Modelled from the spec: the config loader is not part of the sources at hand.  It
  builds a new pipeline object and puts it into one of the two staging slots
  before it calls \<open>Start\<close>.  A new object is live, and the package does not know
  it yet: it is not registered, not staged and not disabled.  The heaps are
  total, so the object the loader has built is the one that sits at such a
  pointer.
\<close>

definition fresh :: "manager \<Rightarrow> config_ptr \<Rightarrow> bool" where
  "fresh s p =
     (p \<notin> snd ` set (LogtailConfig s) \<and> p \<notin> DisabledLogtailConfig s
      \<and> ToStartPipelineConfigWithInput s \<noteq> Some p
      \<and> ToStartPipelineConfigWithoutInput s \<noteq> Some p)"

text \<open>The package state at process start: the package-level variables as declared.\<close>

definition initial :: "manager \<Rightarrow> bool" where
  "initial s =
     (LogtailConfig s = [] \<and> ToStartPipelineConfigWithInput s = None
      \<and> ToStartPipelineConfigWithoutInput s = None \<and> DisabledLogtailConfig s = {}
      \<and> LastUnsendBuffer s = Map.empty \<and> goroutines s = [])"

text \<open>
  One step of the lifecycle is one complete call of an entry point that returns,
  the loader staging a pipeline, or a goroutine of \<open>timeoutStop\<close> running its last
  block.  The stop and start procedures and the schedule of the goroutines may be
  different at every call.
\<close>

inductive lifecycle_step :: "manager \<Rightarrow> manager \<Rightarrow> bool" where
  stage_with_input:
    "fresh s p \<Longrightarrow> live s p \<Longrightarrow>
       lifecycle_step s (s\<lparr>ToStartPipelineConfigWithInput := Some p\<rparr>)"
| stage_without_input:
    "fresh s p \<Longrightarrow> live s p \<Longrightarrow>
       lifecycle_step s (s\<lparr>ToStartPipelineConfigWithoutInput := Some p\<rparr>)"
| start:
    "Start configName startProc s = Returned (err, s') \<Longrightarrow> lifecycle_step s s'"
| stop:
    "Stop configName removedFlag stopProc schedule s = Returned (err, s') \<Longrightarrow> lifecycle_step s s'"
| stop_all:
    "StopAllPipelines withInput stopProc schedule s = Returned (err, s') \<Longrightarrow> lifecycle_step s s'"
| delete:
    "lifecycle_step s (DeleteLogstoreConfigFromLogtailConfig configName removedFlag s)"
| goroutine_exit:
    "(config, removedFlag) \<in> set (goroutines s) \<Longrightarrow>
       lifecycle_step s (goroutineExit config removedFlag s)"

inductive reachable :: "manager \<Rightarrow> bool" where
  at_start: "initial s \<Longrightarrow> reachable s"
| after_step: "reachable s \<Longrightarrow> lifecycle_step s s' \<Longrightarrow> reachable s'"

text \<open>
  What the lifecycle keeps true of the staging slots: a staged pipeline is live,
  neither registered nor disabled, and the two slots hold different pipelines.
\<close>

definition slot_ok :: "manager \<Rightarrow> config_ptr option \<Rightarrow> bool" where
  "slot_ok s slot =
     (case slot of
        None \<Rightarrow> True
      | Some p \<Rightarrow> live s p \<and> p \<notin> DisabledLogtailConfig s \<and> p \<notin> snd ` set (LogtailConfig s))"

definition lifecycle_invariant :: "manager \<Rightarrow> bool" where
  "lifecycle_invariant s =
     (registry_ok s \<and> disabled_not_registered s
      \<and> slot_ok s (ToStartPipelineConfigWithInput s)
      \<and> slot_ok s (ToStartPipelineConfigWithoutInput s)
      \<and> (ToStartPipelineConfigWithInput s = None
          \<or> ToStartPipelineConfigWithInput s \<noteq> ToStartPipelineConfigWithoutInput s))"

text \<open>Stop and start procedures that behave the same for every pipeline.\<close>

definition stop_returns :: "config_ptr \<Rightarrow> stop_outcome" where
  "stop_returns p = DoneFirst"

definition stop_hangs :: "config_ptr \<Rightarrow> stop_outcome" where
  "stop_hangs p = DeadlineFirst"

definition stop_panics :: "config_ptr \<Rightarrow> stop_outcome" where
  "stop_panics p = StopPanics"

text \<open>Schedules of the goroutines that are the same for every pipeline.\<close>

definition stays_pending :: "config_ptr \<Rightarrow> goroutine_progress" where
  "stays_pending p = BeforeLastBlock"

definition exits_in_window :: "config_ptr \<Rightarrow> goroutine_progress" where
  "exits_in_window p = PastLastBlock"

definition start_returns :: "config_ptr \<Rightarrow> start_outcome" where
  "start_returns p = StartReturns"

definition start_panics :: "config_ptr \<Rightarrow> start_outcome" where
  "start_panics p = StartPanics"

section \<open>A package state to evaluate on\<close>

text \<open>
  Two registered pipelines: \<open>p1\<close> at pointer 1 with a generation-1 runner without
  input, \<open>p2\<close> at pointer 2 with a generation-2 runner with input; every plugin
  instance points back at its pipeline.
\<close>

definition example_configs :: "config_ptr \<Rightarrow> logstore_config" where
  "example_configs p =
     (if p = 1 then
        \<lparr>Context = Some (ContextImp 1), PluginRunner = Some (pluginv1Runner 1),
         ConfigName = ''p1'', ConfigNameWithSuffix = ''p1/1''\<rparr>
      else if p = 2 then
        \<lparr>Context = Some (ContextImp 2), PluginRunner = Some (pluginv2Runner 2),
         ConfigName = ''p2'', ConfigNameWithSuffix = ''p2/1''\<rparr>
      else if p = 3 then
        \<lparr>Context = Some (ContextImp 3), PluginRunner = Some (pluginv1Runner 3),
         ConfigName = ''p3'', ConfigNameWithSuffix = ''p3/1''\<rparr>
      else if p = 4 then
        \<lparr>Context = Some OtherContext, PluginRunner = Some (pluginv2Runner 4),
         ConfigName = ''p3'', ConfigNameWithSuffix = ''p3/1''\<rparr>
      else
        \<lparr>Context = None, PluginRunner = None, ConfigName = [], ConfigNameWithSuffix = []\<rparr>)"

definition example_runners :: "runner_ptr \<Rightarrow> plugin_runner" where
  "example_runners r =
     (if r = 1 then
        \<lparr>MetricPlugins = [], ServicePlugins = [], ProcessorPlugins = [11],
         AggregatorPlugins = [12], FlusherPlugins = [13], LogstoreConfig = Some 1,
         IsWithInputPlugin = False\<rparr>
      else if r = 2 then
        \<lparr>MetricPlugins = [21], ServicePlugins = [22], ProcessorPlugins = [],
         AggregatorPlugins = [], FlusherPlugins = [23], LogstoreConfig = Some 2,
         IsWithInputPlugin = True\<rparr>
      else if r = 3 then
        \<lparr>MetricPlugins = [], ServicePlugins = [31], ProcessorPlugins = [],
         AggregatorPlugins = [], FlusherPlugins = [], LogstoreConfig = Some 3,
         IsWithInputPlugin = True\<rparr>
      else
        \<lparr>MetricPlugins = [], ServicePlugins = [], ProcessorPlugins = [],
         AggregatorPlugins = [], FlusherPlugins = [], LogstoreConfig = None,
         IsWithInputPlugin = False\<rparr>)"

definition example_manager :: manager where
  "example_manager =
     \<lparr>LogtailConfig = [(''p1/1'', 1), (''p2/1'', 2)],
      ToStartPipelineConfigWithInput = None,
      ToStartPipelineConfigWithoutInput = None,
      DisabledLogtailConfig = {},
      LastUnsendBuffer = Map.empty,
      configs = example_configs,
      logstoreC = (\<lambda>c. if c = 1 \<or> c = 2 then Some c else None),
      runners = example_runners,
      Config = (\<lambda>w. if w \<in> {11, 12, 13} then Some 1 else if w \<in> {21, 22, 23} then Some 2 else None),
      goroutines = [],
      alarms = []\<rparr>"

text \<open>
  The same state after the loader has staged two pipelines of one name: pointer 3
  with input, pointer 4 without.
\<close>

definition staged_manager :: manager where
  "staged_manager =
     example_manager\<lparr>ToStartPipelineConfigWithInput := Some 3,
                     ToStartPipelineConfigWithoutInput := Some 4\<rparr>"

text \<open>
  The state in which \<open>Stop\<close> leaves \<open>example_manager\<close> when the stop procedure of
  \<open>p1\<close> is still running at the deadline, and the state between its two last
  lock-protected blocks.
\<close>

definition quarantined_manager :: manager where
  "quarantined_manager = quarantine 1 (example_manager\<lparr>goroutines := [(1, False)]\<rparr>)"

definition timed_out_manager :: manager where
  "timed_out_manager = Stop_unregister ''p1/1'' quarantined_manager"

text \<open>
  The state in which \<open>Stop\<close> leaves \<open>example_manager\<close> when the goroutine has run
  its last block before \<open>p1\<close> was put into the disabled set.
\<close>

definition abandoned_manager :: manager where
  "abandoned_manager = Stop_unregister ''p1/1'' (quarantine 1 example_manager)"

text \<open>
  The state at process start with the heap of \<open>example_manager\<close>, from which the
  loader and \<open>Start\<close> lead to \<open>example_manager\<close>.
\<close>

definition empty_manager :: manager where
  "empty_manager = example_manager\<lparr>LogtailConfig := []\<rparr>"

section \<open>Facts about the teardown\<close>

lemma clearConfig_apply: "clearConfig objs h w = (if w \<in> set objs then None else h w)"
  by (induction objs arbitrary: h) auto

lemma Context_None_upd: "Context c = None \<Longrightarrow> c\<lparr>Context := None\<rparr> = c"
  by (cases c) simp

lemma PluginRunner_None_upd: "PluginRunner c = None \<Longrightarrow> c\<lparr>PluginRunner := None\<rparr> = c"
  by (cases c) simp

lemma Delete_Context [simp]:
  "Context (configs (DeleteLogstoreConfig config removedFlag s) config) = None"
  by (simp add: DeleteLogstoreConfig_def Let_def clearRunner_def
           split: option.splits context_value.splits runner_value.splits)

lemma Delete_PluginRunner [simp]:
  "PluginRunner (configs (DeleteLogstoreConfig config removedFlag s) config) = None"
  by (simp add: DeleteLogstoreConfig_def Let_def clearRunner_def
           split: option.splits context_value.splits runner_value.splits)

lemma Delete_ConfigName [simp]:
  "ConfigName (configs (DeleteLogstoreConfig config removedFlag s) p) = ConfigName (configs s p)"
  by (simp add: DeleteLogstoreConfig_def Let_def clearRunner_def
           split: option.splits context_value.splits runner_value.splits)

lemma Delete_torn_down_removed:
  "Context (configs s config) = None \<Longrightarrow> PluginRunner (configs s config) = None \<Longrightarrow>
     DeleteLogstoreConfig config True s = s"
  by (simp add: DeleteLogstoreConfig_def Context_None_upd PluginRunner_None_upd)

lemma Delete_torn_down_kept:
  "Context (configs s config) = None \<Longrightarrow> PluginRunner (configs s config) = None \<Longrightarrow>
     DeleteLogstoreConfig config False s =
       s\<lparr>LastUnsendBuffer := (LastUnsendBuffer s)(ConfigName (configs s config) \<mapsto> None)\<rparr>"
  by (simp add: DeleteLogstoreConfig_def Context_None_upd PluginRunner_None_upd)

lemma Delete_frame [simp]:
  "LogtailConfig (DeleteLogstoreConfig config removedFlag s) = LogtailConfig s"
  "DisabledLogtailConfig (DeleteLogstoreConfig config removedFlag s) = DisabledLogtailConfig s"
  "ToStartPipelineConfigWithInput (DeleteLogstoreConfig config removedFlag s) = ToStartPipelineConfigWithInput s"
  "ToStartPipelineConfigWithoutInput (DeleteLogstoreConfig config removedFlag s) = ToStartPipelineConfigWithoutInput s"
  "goroutines (DeleteLogstoreConfig config removedFlag s) = goroutines s"
  "alarms (DeleteLogstoreConfig config removedFlag s) = alarms s"
  by (simp_all add: DeleteLogstoreConfig_def Let_def clearRunner_def
           split: option.splits context_value.splits runner_value.splits)

lemma Delete_Config_cleared:
  "PluginRunner (configs s config) = Some r \<Longrightarrow>
   w \<in> set (pluginInstances (runners s (runner_of r))) \<Longrightarrow>
   Config (DeleteLogstoreConfig config removedFlag s) w = None"
  by (cases r)
     (auto simp: DeleteLogstoreConfig_def Let_def clearRunner_def clearConfig_apply pluginInstances_def
           split: option.splits context_value.splits)

lemma Delete_LastUnsendBuffer:
  "LastUnsendBuffer (DeleteLogstoreConfig config removedFlag s) =
     (if removedFlag then LastUnsendBuffer s
      else (LastUnsendBuffer s)(ConfigName (configs s config) \<mapsto> PluginRunner (configs s config)))"
  by (simp add: DeleteLogstoreConfig_def Let_def clearRunner_def
           split: option.splits context_value.splits runner_value.splits)


lemma Delete_configs_other:
  "q \<noteq> config \<Longrightarrow> configs (DeleteLogstoreConfig config removedFlag s) q = configs s q"
  by (simp add: DeleteLogstoreConfig_def Let_def clearRunner_def
           split: option.splits context_value.splits runner_value.splits)

lemma Delete_ConfigNameWithSuffix [simp]:
  "ConfigNameWithSuffix (configs (DeleteLogstoreConfig config removedFlag s) q)
     = ConfigNameWithSuffix (configs s q)"
  by (simp add: DeleteLogstoreConfig_def Let_def clearRunner_def
           split: option.splits context_value.splits runner_value.splits)

lemma Delete_IsWithInputPlugin [simp]:
  "IsWithInputPlugin (runners (DeleteLogstoreConfig config removedFlag s) r)
     = IsWithInputPlugin (runners s r)"
  by (simp add: DeleteLogstoreConfig_def Let_def clearRunner_def
           split: option.splits context_value.splits runner_value.splits)

text \<open>
  C4, as claimed: a second \<open>DeleteLogstoreConfig\<close> on the same pipeline changes
  nothing, for either value of \<open>removedFlag\<close>.  This fails for
  \<open>removedFlag = false\<close>: the first call saves the runner of \<open>p1\<close> in
  \<open>LastUnsendBuffer\<close>, the second call stores the by now nil \<open>PluginRunner\<close> under
  the same key.
\<close>

theorem DeleteLogstoreConfig_twice_counterexample:
  "LastUnsendBuffer (DeleteLogstoreConfig 1 False example_manager) ''p1''
     = Some (Some (pluginv1Runner 1))
   \<and> LastUnsendBuffer (DeleteLogstoreConfig 1 False (DeleteLogstoreConfig 1 False example_manager)) ''p1''
     = Some None
   \<and> DeleteLogstoreConfig 1 False (DeleteLogstoreConfig 1 False example_manager)
     \<noteq> DeleteLogstoreConfig 1 False example_manager"
proof -
  have first: "LastUnsendBuffer (DeleteLogstoreConfig 1 False example_manager) ''p1''
                 = Some (Some (pluginv1Runner 1))"
    by (simp add: DeleteLogstoreConfig_def example_manager_def example_configs_def
                  clearRunner_def Let_def)
  have second: "LastUnsendBuffer
                  (DeleteLogstoreConfig 1 False (DeleteLogstoreConfig 1 False example_manager)) ''p1''
                 = Some None"
    by (simp add: DeleteLogstoreConfig_def example_manager_def example_configs_def
                  clearRunner_def Let_def)
  from first second show ?thesis by auto
qed

text \<open>
  C4, amended: a second \<open>DeleteLogstoreConfig\<close> on the same pipeline never panics
  (the function is total on every state) and leaves the pipeline, its context, its
  runner and the plugin instances as the first call left them.  With
  \<open>removedFlag = true\<close> in the second call the whole state is unchanged; with
  \<open>removedFlag = false\<close> the only change is that the entry of \<open>LastUnsendBuffer\<close>
  under the pipeline's \<open>ConfigName\<close> becomes the nil runner.
\<close>

theorem DeleteLogstoreConfig_second_call:
  "DeleteLogstoreConfig config True (DeleteLogstoreConfig config removedFlag s)
     = DeleteLogstoreConfig config removedFlag s
   \<and> DeleteLogstoreConfig config False (DeleteLogstoreConfig config removedFlag s)
     = (DeleteLogstoreConfig config removedFlag s)
         \<lparr>LastUnsendBuffer :=
            (LastUnsendBuffer (DeleteLogstoreConfig config removedFlag s))
              (ConfigName (configs s config) \<mapsto> None)\<rparr>"
  by (simp add: Delete_torn_down_removed Delete_torn_down_kept)

section \<open>Properties of Stop\<close>

lemma timeoutStop_live:
  "Context (configs s config) \<noteq> None \<Longrightarrow>
   timeoutStop config removedFlag stop progress s =
     (case stop of
        StopPanics \<Rightarrow> ProcessCrashed
      | DoneFirst \<Rightarrow>
          Returned (True, s\<lparr>goroutines := pending_after config removedFlag progress s\<rparr>)
      | DeadlineFirst \<Rightarrow>
          Returned (False, s\<lparr>goroutines := pending_after config removedFlag progress s\<rparr>))"
  by (auto simp: timeoutStop_def split: option.splits)

lemma Stop_DeadlineFirst:
  assumes "map_of (LogtailConfig s) configName = Some config"
    and "Context (configs s config) \<noteq> None"
    and "stopProc config = DeadlineFirst"
  shows "Stop configName removedFlag stopProc schedule s =
           Returned (None, Stop_unregister configName
             (quarantine config (s\<lparr>goroutines := pending_after config removedFlag (schedule config) s\<rparr>)))"
  using assms by (auto simp: Stop_def timeoutStop_live quarantine_def split: option.splits)

lemma deleted_name_unregisters:
  "registered_by_name s \<Longrightarrow> map_of (LogtailConfig s) configName = Some config \<Longrightarrow>
     config \<in> snd ` set (AList.delete configName (LogtailConfig s)) \<Longrightarrow> False"
proof -
  assume reg: "registered_by_name s" and look: "map_of (LogtailConfig s) configName = Some config"
    and "config \<in> snd ` set (AList.delete configName (LogtailConfig s))"
  then obtain n where n: "(n, config) \<in> set (LogtailConfig s)" "n \<noteq> configName"
    by (auto simp: AList.delete_eq)
  from look have "(configName, config) \<in> set (LogtailConfig s)" by (rule map_of_SomeD)
  with reg have "ConfigNameWithSuffix (configs s config) = configName"
    by (auto simp: registered_by_name_def list_all_iff)
  moreover from reg n(1) have "ConfigNameWithSuffix (configs s config) = n"
    by (auto simp: registered_by_name_def list_all_iff)
  ultimately show False using n(2) by simp
qed

lemma Stop_DoneFirst:
  assumes "map_of (LogtailConfig s) configName = Some config"
    and "Context (configs s config) \<noteq> None"
    and "stopProc config = DoneFirst"
  shows "Stop configName removedFlag stopProc schedule s =
           Returned (None, Stop_delete config configName removedFlag
             (s\<lparr>goroutines := pending_after config removedFlag (schedule config) s\<rparr>))"
  using assms by (auto simp: Stop_def timeoutStop_live split: option.splits)

text \<open>
  C6: for a name that is not in the registry, \<open>Stop\<close> returns the error
  \<open>config not found: name\<close> and the whole package state, with the registry, the
  disabled set and \<open>LastUnsendBuffer\<close>, is as before.
\<close>

theorem Stop_not_found:
  "map_of (LogtailConfig s) configName = None \<Longrightarrow>
     Stop configName removedFlag stopProc schedule s
       = Returned (Some (''config not found: '' @ configName), s)"
  by (simp add: Stop_def)

theorem Stop_not_found_witness:
  "map_of (LogtailConfig example_manager) ''p3/1'' = None
   \<and> Stop ''p3/1'' True stop_returns exits_in_window example_manager
       = Returned (Some ''config not found: p3/1'', example_manager)"
  using Stop_not_found [of example_manager "''p3/1''" True stop_returns exits_in_window]
  by (simp add: example_manager_def)



text \<open>
  C2: for a registered pipeline (one that still has its context; by the invariant of
  the package it is not in the disabled set, and it is registered under its own
  name) whose stop procedure signals completion before the timer fires, and for
  every schedule of the goroutine, \<open>Stop\<close> returns nil, and afterwards the name is not in the registry, the pipeline is
  under no name in the registry, it is not in the disabled set, and the \<open>Config\<close>
  field of every plugin instance in the five collections of its runner is nil.
\<close>

theorem Stop_in_time:
  assumes "map_of (LogtailConfig s) configName = Some config"
    and "Context (configs s config) \<noteq> None"
    and "stopProc config = DoneFirst"
    and "config \<notin> DisabledLogtailConfig s"
    and "registered_by_name s"
  shows "\<exists>s'. Stop configName removedFlag stopProc schedule s = Returned (None, s')
            \<and> map_of (LogtailConfig s') configName = None
            \<and> config \<notin> snd ` set (LogtailConfig s')
            \<and> config \<notin> DisabledLogtailConfig s'
            \<and> (\<forall>r. PluginRunner (configs s config) = Some r \<longrightarrow>
                   (\<forall>w \<in> set (pluginInstances (runners s (runner_of r))). Config s' w = None))"
proof -
  let ?s0 = "s\<lparr>goroutines := pending_after config removedFlag (schedule config) s\<rparr>"
  let ?s' = "Stop_delete config configName removedFlag ?s0"
  have run: "Stop configName removedFlag stopProc schedule s = Returned (None, ?s')"
    using Stop_DoneFirst [where stopProc = stopProc and schedule = schedule, OF assms(1-3)] .
  have name: "map_of (LogtailConfig ?s') configName = None"
    by (simp add: Stop_delete_def Let_def delete_conv')
  have ptr: "config \<notin> snd ` set (LogtailConfig ?s')"
    using deleted_name_unregisters [OF assms(5) assms(1)]
    by (auto simp: Stop_delete_def Let_def)
  have dis: "config \<notin> DisabledLogtailConfig ?s'"
    using assms(4) by (simp add: Stop_delete_def Let_def)
  have plug: "\<forall>r. PluginRunner (configs s config) = Some r \<longrightarrow>
                   (\<forall>w \<in> set (pluginInstances (runners s (runner_of r))). Config ?s' w = None)"
    using Delete_Config_cleared [of ?s0 config]
    by (simp add: Stop_delete_def Let_def)
  from run name ptr dis plug show ?thesis by blast
qed

theorem Stop_in_time_witness:
  "map_of (LogtailConfig example_manager) ''p2/1'' = Some 2
   \<and> Context (configs example_manager 2) \<noteq> None
   \<and> stop_returns 2 = DoneFirst
   \<and> 2 \<notin> DisabledLogtailConfig example_manager
   \<and> registered_by_name example_manager
   \<and> PluginRunner (configs example_manager 2) = Some (pluginv2Runner 2)
   \<and> pluginInstances (runners example_manager 2) = [21, 22, 23]
   \<and> (\<exists>s'. Stop ''p2/1'' True stop_returns exits_in_window example_manager = Returned (None, s')
            \<and> map_of (LogtailConfig s') ''p2/1'' = None
            \<and> 2 \<notin> snd ` set (LogtailConfig s')
            \<and> 2 \<notin> DisabledLogtailConfig s'
            \<and> Config s' 21 = None \<and> Config s' 22 = None \<and> Config s' 23 = None)"
proof -
  have h: "map_of (LogtailConfig example_manager) ''p2/1'' = Some 2"
    "Context (configs example_manager 2) \<noteq> None"
    "stop_returns 2 = DoneFirst"
    "2 \<notin> DisabledLogtailConfig example_manager"
    "registered_by_name example_manager"
    by (simp_all add: example_manager_def example_configs_def stop_returns_def registered_by_name_def)
  have r: "PluginRunner (configs example_manager 2) = Some (pluginv2Runner 2)"
    "pluginInstances (runners example_manager 2) = [21, 22, 23]"
    by (simp_all add: example_manager_def example_configs_def example_runners_def pluginInstances_def)
  from Stop_in_time [where stopProc = stop_returns and schedule = exits_in_window
      and removedFlag = True, OF h] r
  show ?thesis using h by fastforce
qed

text \<open>
  What the last block of the goroutine is there for: when the goroutine has still
  to run it after a \<open>Stop\<close> that timed out, the pipeline is in the disabled set
  and the block tears it down and takes it out of the set.
\<close>

lemma goroutineExit_after_timeout:
  assumes "map_of (LogtailConfig s) configName = Some config"
    and "stopProc config = DeadlineFirst"
    and "schedule config = BeforeLastBlock"
    and "Stop configName removedFlag stopProc schedule s = Returned (err, s1)"
  shows "(config, removedFlag) \<in> set (goroutines s1)
       \<and> config \<in> DisabledLogtailConfig s1
       \<and> config \<notin> DisabledLogtailConfig (goroutineExit config removedFlag s1)
       \<and> Context (configs (goroutineExit config removedFlag s1) config) = None
       \<and> PluginRunner (configs (goroutineExit config removedFlag s1) config) = None"
proof -
  have ctx: "Context (configs s config) \<noteq> None"
    using assms(1,4) by (auto simp: Stop_def timeoutStop_def split: option.splits)
  have s1: "s1 = Stop_unregister configName
               (quarantine config (s\<lparr>goroutines := pending_after config removedFlag (schedule config) s\<rparr>))"
    using Stop_DeadlineFirst [where stopProc = stopProc and schedule = schedule
                                and removedFlag = removedFlag, OF assms(1) ctx assms(2)] assms(4)
    by simp
  have spawned: "(config, removedFlag) \<in> set (goroutines s1)"
    and disabled: "config \<in> DisabledLogtailConfig s1"
    using assms(3) by (simp_all add: s1 Stop_unregister_def quarantine_def pending_after_def)
  from disabled have "goroutineExit config removedFlag s1
          = (DeleteLogstoreConfig config removedFlag
               (s1\<lparr>goroutines := remove1 (config, removedFlag) (goroutines s1)\<rparr>))
              \<lparr>DisabledLogtailConfig := DisabledLogtailConfig s1 - {config}\<rparr>"
    by (simp add: goroutineExit_def Let_def)
  with spawned disabled show ?thesis by simp
qed

text \<open>
  C3, at a failing input: the stop procedure of \<open>p1\<close> is still running when the
  timer fires, and returns before the caller of \<open>timeoutStop\<close> has taken
  \<open>DisabledLogtailConfigLock\<close>.  The goroutine runs its last block in that window,
  finds \<open>p1\<close> not in the disabled set and returns; only then \<open>Stop\<close> puts \<open>p1\<close>
  into the set.  \<open>Stop\<close> returns with \<open>p1\<close> quarantined and no goroutine left to
  reconcile it: \<open>p1\<close> keeps its context, its runner and the back-references of
  its plugin instances, and nothing is handed to \<open>LastUnsendBuffer\<close>.
\<close>

theorem Stop_goroutine_exits_before_quarantine:
  "Stop ''p1/1'' False stop_hangs exits_in_window example_manager
     = Returned (None, abandoned_manager)
   \<and> 1 \<in> DisabledLogtailConfig abandoned_manager
   \<and> goroutines abandoned_manager = []
   \<and> Context (configs abandoned_manager 1) = Some (ContextImp 1)
   \<and> PluginRunner (configs abandoned_manager 1) = Some (pluginv1Runner 1)
   \<and> Config abandoned_manager 12 = Some 1
   \<and> LastUnsendBuffer abandoned_manager ''p1'' = None"
proof -
  have "Stop ''p1/1'' False stop_hangs exits_in_window example_manager
          = Returned (None, abandoned_manager)"
    by (simp add: Stop_def timeoutStop_def pending_after_def stop_hangs_def exits_in_window_def
          abandoned_manager_def example_manager_def example_configs_def)
  moreover have "1 \<in> DisabledLogtailConfig abandoned_manager"
    "goroutines abandoned_manager = []"
    "Context (configs abandoned_manager 1) = Some (ContextImp 1)"
    "PluginRunner (configs abandoned_manager 1) = Some (pluginv1Runner 1)"
    "Config abandoned_manager 12 = Some 1"
    "LastUnsendBuffer abandoned_manager ''p1'' = None"
    by (simp_all add: abandoned_manager_def Stop_unregister_def quarantine_def
          example_manager_def example_configs_def)
  ultimately show ?thesis by simp
qed

text \<open>
  C5, at a failing input: the stop procedure of \<open>p1\<close> panics.  It runs in the
  goroutine that \<open>timeoutStop\<close> starts, where no \<open>recover\<close> is deferred, so neither
  \<open>Stop\<close> nor \<open>StopAllPipelines\<close> returns: the process terminates.
\<close>

theorem Stop_panicking_stop_procedure:
  "Stop ''p1/1'' True stop_panics stays_pending example_manager = ProcessCrashed
   \<and> StopAllPipelines False stop_panics stays_pending example_manager = ProcessCrashed
   \<and> Stop ''p1/1'' True stop_panics exits_in_window example_manager = ProcessCrashed
   \<and> StopAllPipelines False stop_panics exits_in_window example_manager = ProcessCrashed"
  by (simp add: Stop_def StopAllPipelines_def timeoutStop_def stop_panics_def
        example_manager_def example_configs_def example_runners_def)

section \<open>Properties of Start\<close>

text \<open>
  C10: when both staging slots hold a pipeline whose name-with-suffix is the
  requested name (and the start procedure of the with-input one returns), \<open>Start\<close>
  returns nil, registers the with-input pipeline under the name, clears the
  with-input slot and leaves the without-input slot with its pipeline of the same
  name.
\<close>

theorem Start_both_slots:
  assumes "ToStartPipelineConfigWithInput s = Some p"
    and "ToStartPipelineConfigWithoutInput s = Some q"
    and "ConfigNameWithSuffix (configs s p) = configName"
    and "ConfigNameWithSuffix (configs s q) = configName"
    and "startProc p = StartReturns"
  shows "\<exists>s'. Start configName startProc s = Returned (None, s')
            \<and> LogtailConfig s' = AList.update configName p (LogtailConfig s)
            \<and> map_of (LogtailConfig s') configName = Some p
            \<and> ToStartPipelineConfigWithInput s' = None
            \<and> ToStartPipelineConfigWithoutInput s' = Some q
            \<and> ConfigNameWithSuffix (configs s' q) = configName"
  using assms by (simp add: Start_def update_conv')

theorem Start_both_slots_witness:
  "ToStartPipelineConfigWithInput staged_manager = Some 3
   \<and> ToStartPipelineConfigWithoutInput staged_manager = Some 4
   \<and> ConfigNameWithSuffix (configs staged_manager 3) = ''p3/1''
   \<and> ConfigNameWithSuffix (configs staged_manager 4) = ''p3/1''
   \<and> start_returns 3 = StartReturns
   \<and> (\<exists>s'. Start ''p3/1'' start_returns staged_manager = Returned (None, s')
            \<and> LogtailConfig s' = AList.update ''p3/1'' 3 (LogtailConfig staged_manager)
            \<and> map_of (LogtailConfig s') ''p3/1'' = Some 3
            \<and> ToStartPipelineConfigWithInput s' = None
            \<and> ToStartPipelineConfigWithoutInput s' = Some 4
            \<and> ConfigNameWithSuffix (configs s' 4) = ''p3/1'')"
  using Start_both_slots [where s = staged_manager and p = 3 and q = 4
      and configName = "''p3/1''" and startProc = start_returns]
  by (simp add: staged_manager_def example_manager_def example_configs_def start_returns_def)

text \<open>
  C7, as claimed: after a successful \<open>Start(name)\<close> the name is in the registry
  and in neither staging slot.  With two staged pipelines of one name, \<open>Start\<close>
  returns nil and the without-input slot still holds a pipeline of that name.
  (And when the start procedure of the staged pipeline panics, \<open>Start\<close> returns
  nil as well, after \<open>panicRecover\<close>, with nothing registered.)
\<close>

theorem Start_success_counterexample:
  "Start ''p3/1'' start_returns staged_manager
     = Returned (None, staged_manager\<lparr>LogtailConfig := [(''p1/1'', 1), (''p2/1'', 2), (''p3/1'', 3)],
                                      ToStartPipelineConfigWithInput := None\<rparr>)
   \<and> staged ''p3/1''
        (ToStartPipelineConfigWithoutInput
           (staged_manager\<lparr>LogtailConfig := [(''p1/1'', 1), (''p2/1'', 2), (''p3/1'', 3)],
                           ToStartPipelineConfigWithInput := None\<rparr>))
        (staged_manager\<lparr>LogtailConfig := [(''p1/1'', 1), (''p2/1'', 2), (''p3/1'', 3)],
                        ToStartPipelineConfigWithInput := None\<rparr>)
   \<and> Start ''p3/1'' start_panics staged_manager = Returned (None, panicRecover staged_manager)
   \<and> map_of (LogtailConfig (panicRecover staged_manager)) ''p3/1'' = None"
  by (simp add: Start_def staged_def staged_manager_def example_manager_def example_configs_def
        start_returns_def start_panics_def panicRecover_def)

text \<open>
  C7, amended: if \<open>Start(name)\<close> returns nil and no panic was recovered on the way
  (no alarm was logged), then the name is in the registry, the with-input slot
  does not hold it, and the without-input slot holds it exactly when both slots
  held a pipeline of that name before the call.  If the name matches neither
  staged pipeline, \<open>Start(name)\<close> returns an error and the whole state, with the
  registry and both slots, is unchanged.
\<close>

theorem Start_result:
  "(Start configName startProc s = Returned (None, s') \<and> alarms s' = alarms s \<longrightarrow>
      map_of (LogtailConfig s') configName \<noteq> None
      \<and> \<not> staged configName (ToStartPipelineConfigWithInput s') s'
      \<and> (staged configName (ToStartPipelineConfigWithoutInput s') s'
           = (staged configName (ToStartPipelineConfigWithInput s) s
              \<and> staged configName (ToStartPipelineConfigWithoutInput s) s)))
   \<and> (\<not> staged configName (ToStartPipelineConfigWithInput s) s
       \<and> \<not> staged configName (ToStartPipelineConfigWithoutInput s) s \<longrightarrow>
      (\<exists>msg. Start configName startProc s = Returned (Some msg, s)))"
  by (auto simp: Start_def Start_withoutInput_def Start_unmatched_def staged_def panicRecover_def update_conv'
           split: option.splits start_outcome.splits if_splits)

theorem Start_result_witness:
  "Start ''p2/1'' start_returns (example_manager\<lparr>ToStartPipelineConfigWithoutInput := Some 2\<rparr>)
     = Returned (None, example_manager)
   \<and> alarms example_manager = alarms (example_manager\<lparr>ToStartPipelineConfigWithoutInput := Some 2\<rparr>)
   \<and> map_of (LogtailConfig example_manager) ''p2/1'' \<noteq> None
   \<and> \<not> staged ''p2/1'' (ToStartPipelineConfigWithInput example_manager) example_manager
   \<and> \<not> staged ''p2/1'' (ToStartPipelineConfigWithoutInput example_manager) example_manager
   \<and> \<not> staged ''p9/1'' (ToStartPipelineConfigWithInput staged_manager) staged_manager
   \<and> \<not> staged ''p9/1'' (ToStartPipelineConfigWithoutInput staged_manager) staged_manager
   \<and> (\<exists>msg. Start ''p9/1'' start_returns staged_manager = Returned (Some msg, staged_manager))"
proof -
  let ?s = "example_manager\<lparr>ToStartPipelineConfigWithoutInput := Some 2\<rparr>"
  have run: "Start ''p2/1'' start_returns ?s = Returned (None, example_manager)"
    by (simp add: Start_def Start_withoutInput_def start_returns_def example_manager_def
          example_configs_def)
  have same: "alarms example_manager = alarms ?s" by simp
  have un: "\<not> staged ''p9/1'' (ToStartPipelineConfigWithInput staged_manager) staged_manager"
    "\<not> staged ''p9/1'' (ToStartPipelineConfigWithoutInput staged_manager) staged_manager"
    by (simp_all add: staged_def staged_manager_def example_manager_def example_configs_def)
  have "Start ''p2/1'' start_returns ?s = Returned (None, example_manager)
          \<and> alarms example_manager = alarms ?s \<longrightarrow>
        map_of (LogtailConfig example_manager) ''p2/1'' \<noteq> None
        \<and> \<not> staged ''p2/1'' (ToStartPipelineConfigWithInput example_manager) example_manager
        \<and> (staged ''p2/1'' (ToStartPipelineConfigWithoutInput example_manager) example_manager
             = (staged ''p2/1'' (ToStartPipelineConfigWithInput ?s) ?s
                \<and> staged ''p2/1'' (ToStartPipelineConfigWithoutInput ?s) ?s))"
    by (rule conjunct1 [OF Start_result [of "''p2/1''" start_returns ?s example_manager]])
  with run same
  have a: "map_of (LogtailConfig example_manager) ''p2/1'' \<noteq> None"
    "\<not> staged ''p2/1'' (ToStartPipelineConfigWithInput example_manager) example_manager"
    by blast+
  have a': "\<not> staged ''p2/1'' (ToStartPipelineConfigWithoutInput example_manager) example_manager"
    by (simp add: staged_def example_manager_def)
  from conjunct2 [OF Start_result [of "''p9/1''" start_returns staged_manager]] un
  have b: "\<exists>msg. Start ''p9/1'' start_returns staged_manager = Returned (Some msg, staged_manager)"
    by blast
  from run same a a' un b show ?thesis by (intro conjI)
qed

section \<open>Properties of StopAllPipelines\<close>

lemma fold_delete_filter:
  "fold AList.delete ks al = filter (\<lambda>(k, v). k \<notin> set ks) al"
proof (induction ks arbitrary: al)
  case Nil
  then show ?case by simp
next
  case (Cons k ks)
  have "fold AList.delete (k # ks) al = fold AList.delete ks (AList.delete k al)"
    by simp
  also have "\<dots> = filter (\<lambda>(k', v). k' \<notin> set ks) (AList.delete k al)"
    by (rule Cons.IH)
  also have "\<dots> = filter (\<lambda>(k', v). k' \<notin> set (k # ks)) al"
    by (induction al) auto
  finally show ?case .
qed

lemma filter_by_key:
  "distinct (map fst al) \<Longrightarrow>
     filter (\<lambda>(k, v). k \<notin> set (map fst (filter P al))) al = filter (\<lambda>x. \<not> P x) al"
proof (rule filter_cong [OF refl])
  fix x assume d: "distinct (map fst al)" and x: "x \<in> set al"
  obtain k v where kv: "x = (k, v)" by (cases x)
  have "k \<in> set (map fst (filter P al)) \<longleftrightarrow> P (k, v)"
  proof
    assume "k \<in> set (map fst (filter P al))"
    then obtain v' where v': "(k, v') \<in> set al" "P (k, v')" by auto
    from d x v'(1) kv have "v' = v" by (meson eq_key_imp_eq_value)
    with v'(2) show "P (k, v)" by simp
  next
    assume "P (k, v)"
    with x kv show "k \<in> set (map fst (filter P al))" by force
  qed
  with kv show "(case x of (k, v) \<Rightarrow> k \<notin> set (map fst (filter P al))) = (\<not> P x)" by simp
qed

lemma distinct_pointers:
  "distinct (map fst (LogtailConfig s)) \<Longrightarrow> registered_by_name s \<Longrightarrow>
     distinct (map snd (LogtailConfig s))"
proof -
  assume d: "distinct (map fst (LogtailConfig s))" and r: "registered_by_name s"
  have "map fst (LogtailConfig s)
          = map (\<lambda>p. ConfigNameWithSuffix (configs s p)) (map snd (LogtailConfig s))"
    using r by (auto simp: registered_by_name_def list_all_iff)
  with d show ?thesis by (metis distinct_map)
qed

lemma only_touches_refl: "only_touches {} s s"
  by (simp add: only_touches_def)

lemma only_touches_trans:
  "only_touches A s s1 \<Longrightarrow> only_touches B s1 s2 \<Longrightarrow> only_touches (A \<union> B) s s2"
  unfolding only_touches_def by (intro conjI) auto

lemma only_touches_teardown:
  "only_touches {p} s (DeleteLogstoreConfig p removedFlag (s\<lparr>goroutines := g\<rparr>))"
  by (auto simp: only_touches_def Delete_configs_other)

lemma only_touches_quarantine:
  "only_touches {p} s (quarantine p (s\<lparr>goroutines := g\<rparr>))"
  by (auto simp: only_touches_def quarantine_def)

lemma withInputPlugin_untouched:
  "only_touches A s s' \<Longrightarrow> q \<notin> A \<Longrightarrow>
     live s' q = live s q \<and> withInputPlugin s' q = withInputPlugin s q"
  by (auto simp: only_touches_def live_def withInputPlugin_def split: option.splits)

lemma StopAll_loop_run:
  assumes "distinct (map snd rest)"
    and "\<forall>(n, p) \<in> set rest. live s p \<and> (withInputPlugin s p = withInput) = M p"
  shows "if \<exists>(n, p) \<in> set rest. M p \<and> stopProc p = StopPanics
         then StopAll_loop withInput stopProc schedule rest acc s = LoopCrashed
         else \<exists>s'. StopAll_loop withInput stopProc schedule rest acc s
                      = LoopDone (acc @ map fst (filter (\<lambda>(n, p). M p) rest)) s'
                  \<and> only_touches (snd ` set (filter (\<lambda>(n, p). M p) rest)) s s'"
  using assms
proof (induction rest arbitrary: acc s)
  case Nil
  then show ?case by (simp add: only_touches_refl)
next
  case (Cons x rest)
  obtain n p where x: "x = (n, p)" by (cases x)
  from Cons.prems x have fresh_p: "p \<notin> snd ` set rest" and dist: "distinct (map snd rest)"
    by auto
  from Cons.prems x have live_p: "live s p" and match_p: "(withInputPlugin s p = withInput) = M p"
    and rest_ok: "\<forall>(n, q) \<in> set rest. live s q \<and> (withInputPlugin s q = withInput) = M q"
    by auto
  from live_p obtain runner ctx where
    runner: "PluginRunner (configs s p) = Some runner" and ctx: "Context (configs s p) = Some ctx"
    by (auto simp: live_def)
  from match_p runner have cond:
    "(if withInput then IsWithInputPlugin (runners s (runner_of runner))
      else \<not> IsWithInputPlugin (runners s (runner_of runner))) = M p"
    by (auto simp: withInputPlugin_def)
  have carry: "\<forall>(n, q) \<in> set rest. live s2 q \<and> (withInputPlugin s2 q = withInput) = M q"
    if "only_touches {p} s s2" for s2
    using rest_ok fresh_p withInputPlugin_untouched [OF that] by fastforce
  show ?case
  proof (cases "M p")
    case False
    have run: "StopAll_loop withInput stopProc schedule (x # rest) acc s
                 = StopAll_loop withInput stopProc schedule rest acc s"
      using False cond runner by (simp add: x)
    have same: "filter (\<lambda>(n, p). M p) (x # rest) = filter (\<lambda>(n, p). M p) rest"
      "(\<exists>(n, p) \<in> set (x # rest). M p \<and> stopProc p = StopPanics)
         = (\<exists>(n, p) \<in> set rest. M p \<and> stopProc p = StopPanics)"
      using False by (simp_all add: x)
    show ?thesis
      unfolding run same using Cons.IH [OF dist rest_ok, of acc] .
  next
    case True
    let ?s1 = "s\<lparr>goroutines := pending_after p True (schedule p) s\<rparr>"
    have touched: "snd ` set (filter (\<lambda>(n, p). M p) (x # rest))
                     = {p} \<union> snd ` set (filter (\<lambda>(n, p). M p) rest)"
      and names: "acc @ map fst (filter (\<lambda>(n, p). M p) (x # rest))
                     = (acc @ [n]) @ map fst (filter (\<lambda>(n, p). M p) rest)"
      using True by (simp_all add: x)
    have step: ?thesis
      if run: "StopAll_loop withInput stopProc schedule (x # rest) acc s
                 = StopAll_loop withInput stopProc schedule rest (acc @ [n]) s2"
        and t: "only_touches {p} s s2"
        and quiet: "stopProc p \<noteq> StopPanics" for s2
    proof (cases "\<exists>(n, p) \<in> set rest. M p \<and> stopProc p = StopPanics")
      case True
      then have panic: "\<exists>(n, p) \<in> set (x # rest). M p \<and> stopProc p = StopPanics"
        by auto
      from True Cons.IH [OF dist carry [OF t], of "acc @ [n]"]
      have "StopAll_loop withInput stopProc schedule rest (acc @ [n]) s2 = LoopCrashed"
        by simp
      with run have "StopAll_loop withInput stopProc schedule (x # rest) acc s = LoopCrashed"
        by simp
      with panic show ?thesis by (simp only: if_True)
    next
      case False
      with quiet have quiet_all: "\<not> (\<exists>(n, p) \<in> set (x # rest). M p \<and> stopProc p = StopPanics)"
        by (auto simp: x)
      from False Cons.IH [OF dist carry [OF t], of "acc @ [n]"]
      obtain s' where
        s': "StopAll_loop withInput stopProc schedule rest (acc @ [n]) s2
               = LoopDone ((acc @ [n]) @ map fst (filter (\<lambda>(n, p). M p) rest)) s'"
          "only_touches (snd ` set (filter (\<lambda>(n, p). M p) rest)) s2 s'"
        by auto
      have "StopAll_loop withInput stopProc schedule (x # rest) acc s
              = LoopDone (acc @ map fst (filter (\<lambda>(n, p). M p) (x # rest))) s'
            \<and> only_touches (snd ` set (filter (\<lambda>(n, p). M p) (x # rest))) s s'"
        unfolding touched names run using s'(1) only_touches_trans [OF t s'(2)] by simp
      then have "\<exists>s'. StopAll_loop withInput stopProc schedule (x # rest) acc s
              = LoopDone (acc @ map fst (filter (\<lambda>(n, p). M p) (x # rest))) s'
            \<and> only_touches (snd ` set (filter (\<lambda>(n, p). M p) (x # rest))) s s'"
        by (rule exI)
      with quiet_all show ?thesis by (simp only: if_False)
    qed
    show ?thesis
    proof (cases "stopProc p")
      case StopPanics
      have "StopAll_loop withInput stopProc schedule (x # rest) acc s = LoopCrashed"
        using True cond runner ctx StopPanics by (simp add: x timeoutStop_def)
      moreover have "\<exists>(n, p) \<in> set (x # rest). M p \<and> stopProc p = StopPanics"
        using True StopPanics by (auto simp: x)
      ultimately show ?thesis by (simp only: if_True)
    next
      case DoneFirst
      have "StopAll_loop withInput stopProc schedule (x # rest) acc s
              = StopAll_loop withInput stopProc schedule rest (acc @ [n]) (DeleteLogstoreConfig p True ?s1)"
        using True cond runner ctx DoneFirst by (simp add: x timeoutStop_def)
      then show ?thesis
        using only_touches_teardown DoneFirst by (intro step) simp_all
    next
      case DeadlineFirst
      have "Context (configs ?s1 p) = Some ctx" using ctx by simp
      then have "StopAll_loop withInput stopProc schedule (x # rest) acc s
              = StopAll_loop withInput stopProc schedule rest (acc @ [n]) (quarantine p ?s1)"
        using True cond runner ctx DeadlineFirst by (simp add: x timeoutStop_def)
      then show ?thesis
        using only_touches_quarantine DeadlineFirst by (intro step) simp_all
    qed
  qed
qed


lemma StopAllPipelines_run:
  assumes ok: "registry_ok s"
    and ret: "StopAllPipelines withInput stopProc schedule s = Returned (err, s')"
  shows "\<exists>s1. only_touches
                 (snd ` set (filter (\<lambda>(n, p). withInputPlugin s p = withInput) (LogtailConfig s))) s s1
            \<and> err = None
            \<and> s' = s1\<lparr>LogtailConfig :=
                        filter (\<lambda>(n, p). withInputPlugin s p \<noteq> withInput) (LogtailConfig s)\<rparr>"
proof -
  let ?M = "\<lambda>p. withInputPlugin s p = withInput"
  from ok have d: "distinct (map fst (LogtailConfig s))"
    and lv: "\<forall>(n, p) \<in> set (LogtailConfig s). live s p \<and> (withInputPlugin s p = withInput) = ?M p"
    by (auto simp: registry_ok_def list_all_iff)
  from ok have dp: "distinct (map snd (LogtailConfig s))"
    by (simp add: registry_ok_def distinct_pointers)
  note loop = StopAll_loop_run [OF dp lv, of stopProc schedule "[]"]
  show ?thesis
  proof (cases "\<exists>(n, p) \<in> set (LogtailConfig s). ?M p \<and> stopProc p = StopPanics")
    case True
    with loop have "StopAll_loop withInput stopProc schedule (LogtailConfig s) [] s = LoopCrashed"
      by simp
    with ret show ?thesis by (simp add: StopAllPipelines_def)
  next
    case False
    with loop obtain s1 where
      s1: "StopAll_loop withInput stopProc schedule (LogtailConfig s) [] s
             = LoopDone (map fst (filter (\<lambda>(n, p). ?M p) (LogtailConfig s))) s1"
        "only_touches (snd ` set (filter (\<lambda>(n, p). ?M p) (LogtailConfig s))) s s1"
      by auto
    from s1(2) have same: "LogtailConfig s1 = LogtailConfig s"
      by (simp add: only_touches_def)
    have "fold AList.delete (map fst (filter (\<lambda>(n, p). ?M p) (LogtailConfig s))) (LogtailConfig s)
            = filter (\<lambda>x. \<not> (case x of (n, p) \<Rightarrow> ?M p)) (LogtailConfig s)"
      by (simp only: fold_delete_filter filter_by_key [OF d])
    also have "\<dots> = filter (\<lambda>(n, p). withInputPlugin s p \<noteq> withInput) (LogtailConfig s)"
      by (rule filter_cong) auto
    finally have "s' = s1\<lparr>LogtailConfig :=
                        filter (\<lambda>(n, p). withInputPlugin s p \<noteq> withInput) (LogtailConfig s)\<rparr>"
      and "err = None"
      using ret s1(1) same by (simp_all add: StopAllPipelines_def)
    with s1(2) show ?thesis by blast
  qed
qed

lemma StopAllPipelines_returns:
  assumes ok: "registry_ok s"
    and quiet: "\<forall>p \<in> snd ` set (LogtailConfig s). stopProc p \<noteq> StopPanics"
  shows "\<exists>s'. StopAllPipelines withInput stopProc schedule s = Returned (None, s')"
proof -
  let ?M = "\<lambda>p. withInputPlugin s p = withInput"
  from ok have lv: "\<forall>(n, p) \<in> set (LogtailConfig s). live s p \<and> (withInputPlugin s p = withInput) = ?M p"
    by (auto simp: registry_ok_def list_all_iff)
  from ok have dp: "distinct (map snd (LogtailConfig s))"
    by (simp add: registry_ok_def distinct_pointers)
  from quiet have "\<not> (\<exists>(n, p) \<in> set (LogtailConfig s). ?M p \<and> stopProc p = StopPanics)"
    by force
  with StopAll_loop_run [OF dp lv, of stopProc schedule "[]"]
  obtain s1 ns where "StopAll_loop withInput stopProc schedule (LogtailConfig s) [] s = LoopDone ns s1"
    by auto
  then show ?thesis by (simp add: StopAllPipelines_def)
qed

text \<open>
  C8: on a registry as the package keeps it (no key twice, every pipeline live and
  under its own name), with stop procedures that do not panic and for every
  schedule of the goroutines, \<open>StopAllPipelines(withInput)\<close> returns nil and leaves in the registry exactly
  the entries whose runner answers \<open>IsWithInputPlugin()\<close> with the other value, in
  their order.  A name whose runner answers \<open>withInput\<close> is no longer registered;
  every other name still maps to its pipeline, which is unchanged and live.
\<close>

theorem StopAllPipelines_removes_matching:
  assumes ok: "registry_ok s"
    and quiet: "\<forall>p \<in> snd ` set (LogtailConfig s). stopProc p \<noteq> StopPanics"
  shows "\<exists>s'. StopAllPipelines withInput stopProc schedule s = Returned (None, s')
           \<and> LogtailConfig s' = filter (\<lambda>(n, p). withInputPlugin s p \<noteq> withInput) (LogtailConfig s)
           \<and> (\<forall>(n, p) \<in> set (LogtailConfig s).
                 if withInputPlugin s p = withInput
                 then map_of (LogtailConfig s') n = None
                 else map_of (LogtailConfig s') n = Some p \<and> configs s' p = configs s p
                      \<and> live s' p)"
proof -
  from StopAllPipelines_returns [OF ok quiet]
  obtain s' where ret: "StopAllPipelines withInput stopProc schedule s = Returned (None, s')" by blast
  from StopAllPipelines_run [OF ok ret] obtain s1 where
    t: "only_touches
          (snd ` set (filter (\<lambda>(n, p). withInputPlugin s p = withInput) (LogtailConfig s))) s s1"
    and s': "s' = s1\<lparr>LogtailConfig :=
                        filter (\<lambda>(n, p). withInputPlugin s p \<noteq> withInput) (LogtailConfig s)\<rparr>"
    by blast
  from ok have d: "distinct (map fst (LogtailConfig s))"
    and lv: "\<forall>(n, p) \<in> set (LogtailConfig s). live s p"
    by (auto simp: registry_ok_def list_all_iff)
  have reg: "LogtailConfig s' = filter (\<lambda>(n, p). withInputPlugin s p \<noteq> withInput) (LogtailConfig s)"
    using s' by simp
  have each: "if withInputPlugin s p = withInput
              then map_of (LogtailConfig s') n = None
              else map_of (LogtailConfig s') n = Some p \<and> configs s' p = configs s p \<and> live s' p"
    if np: "(n, p) \<in> set (LogtailConfig s)" for n p
  proof (cases "withInputPlugin s p = withInput")
    case True
    have "n \<notin> fst ` set (LogtailConfig s')"
    proof
      assume "n \<in> fst ` set (LogtailConfig s')"
      then obtain q where q: "(n, q) \<in> set (LogtailConfig s)" "withInputPlugin s q \<noteq> withInput"
        by (auto simp: reg)
      from d np q(1) have "q = p" by (meson eq_key_imp_eq_value)
      with q(2) True show False by simp
    qed
    then have "map_of (LogtailConfig s') n = None" by (simp add: map_of_eq_None_iff)
    with True show ?thesis by simp
  next
    case False
    from d have "distinct (map fst (LogtailConfig s'))"
      by (simp add: reg distinct_map_filter)
    moreover from np False have "(n, p) \<in> set (LogtailConfig s')" by (simp add: reg)
    ultimately have look: "map_of (LogtailConfig s') n = Some p" by simp
    from False have "p \<notin> snd ` set (filter (\<lambda>(n, p). withInputPlugin s p = withInput) (LogtailConfig s))"
      by auto
    with t have same: "configs s1 p = configs s p" by (simp add: only_touches_def)
    from lv np have "live s p" by auto
    with same have "configs s' p = configs s p \<and> live s' p" by (simp add: s' live_def)
    with look False show ?thesis by simp
  qed
  from ret reg each show ?thesis by blast
qed


theorem StopAllPipelines_removes_matching_witness:
  "registry_ok example_manager
   \<and> stop_returns 1 \<noteq> StopPanics \<and> stop_returns 2 \<noteq> StopPanics
   \<and> \<not> withInputPlugin example_manager 1 \<and> withInputPlugin example_manager 2
   \<and> (\<exists>s'. StopAllPipelines False stop_returns exits_in_window example_manager = Returned (None, s')
          \<and> LogtailConfig s' = [(''p2/1'', 2)]
          \<and> map_of (LogtailConfig s') ''p1/1'' = None
          \<and> map_of (LogtailConfig s') ''p2/1'' = Some 2
          \<and> configs s' 2 = configs example_manager 2 \<and> live s' 2)"
proof -
  have reg: "LogtailConfig example_manager = [(''p1/1'', 1), (''p2/1'', 2)]"
    by (simp add: example_manager_def)
  have w: "\<not> withInputPlugin example_manager 1" "withInputPlugin example_manager 2"
    by (simp_all add: withInputPlugin_def example_manager_def example_configs_def
          example_runners_def)
  have ok: "registry_ok example_manager"
    by (simp add: registry_ok_def registered_by_name_def live_def example_manager_def
          example_configs_def)
  have quiet: "\<forall>p \<in> snd ` set (LogtailConfig example_manager). stop_returns p \<noteq> StopPanics"
    by (simp add: stop_returns_def)
  from StopAllPipelines_removes_matching [OF ok quiet, of False exits_in_window]
  obtain s' where s':
    "StopAllPipelines False stop_returns exits_in_window example_manager = Returned (None, s')"
    "LogtailConfig s'
       = filter (\<lambda>(n, p). withInputPlugin example_manager p \<noteq> False) (LogtailConfig example_manager)"
    "\<forall>(n, p) \<in> set (LogtailConfig example_manager).
        if withInputPlugin example_manager p = False
        then map_of (LogtailConfig s') n = None
        else map_of (LogtailConfig s') n = Some p \<and> configs s' p = configs example_manager p
             \<and> live s' p"
    by blast
  from s'(2) w have a: "LogtailConfig s' = [(''p2/1'', 2)]" by (simp add: reg)
  from s'(3) w have b: "map_of (LogtailConfig s') ''p1/1'' = None"
    "map_of (LogtailConfig s') ''p2/1'' = Some 2 \<and> configs s' 2 = configs example_manager 2
       \<and> live s' 2"
    by (simp_all add: reg)
  from ok w s'(1) a b show ?thesis by (simp add: stop_returns_def)
qed

section \<open>The lifecycle invariant\<close>

lemma only_touches_Delete: "only_touches {p} s (DeleteLogstoreConfig p removedFlag s)"
  by (auto simp: only_touches_def Delete_configs_other)

lemma only_touches_goroutines: "only_touches {} s (s\<lparr>goroutines := g\<rparr>)"
  by (simp add: only_touches_def)

lemma only_touches_alarms: "only_touches {} s (s\<lparr>alarms := a\<rparr>)"
  by (simp add: only_touches_def)

lemma only_touches_enabled:
  "only_touches T s s1 \<Longrightarrow>
     only_touches T s (s1\<lparr>DisabledLogtailConfig := DisabledLogtailConfig s1 - D\<rparr>)"
  by (auto simp: only_touches_def)

lemma invariant_shrink:
  assumes inv: "lifecycle_invariant s"
    and t: "only_touches T s s1"
    and rest: "\<forall>(n, p) \<in> set (filter P (LogtailConfig s)). p \<notin> T"
    and known: "T \<subseteq> snd ` set (LogtailConfig s) \<union> DisabledLogtailConfig s"
  shows "lifecycle_invariant (s1\<lparr>LogtailConfig := filter P (LogtailConfig s)\<rparr>)"
proof -
  let ?s' = "s1\<lparr>LogtailConfig := filter P (LogtailConfig s)\<rparr>"
  from inv have d: "distinct (map fst (LogtailConfig s))"
    and nm: "\<forall>(n, p) \<in> set (LogtailConfig s). ConfigNameWithSuffix (configs s p) = n"
    and lv: "\<forall>(n, p) \<in> set (LogtailConfig s). live s p"
    and dis: "\<forall>(n, p) \<in> set (LogtailConfig s). p \<notin> DisabledLogtailConfig s"
    and slot1: "slot_ok s (ToStartPipelineConfigWithInput s)"
    and slot2: "slot_ok s (ToStartPipelineConfigWithoutInput s)"
    and differ: "ToStartPipelineConfigWithInput s = None
          \<or> ToStartPipelineConfigWithInput s \<noteq> ToStartPipelineConfigWithoutInput s"
    by (auto simp: lifecycle_invariant_def registry_ok_def registered_by_name_def
          disabled_not_registered_def list_all_iff)
  from t have same: "\<And>q. q \<notin> T \<Longrightarrow> configs s1 q = configs s q"
    and names: "\<And>q. ConfigNameWithSuffix (configs s1 q) = ConfigNameWithSuffix (configs s q)"
    and disabled: "DisabledLogtailConfig s1 \<subseteq> DisabledLogtailConfig s \<union> T"
    and slots: "ToStartPipelineConfigWithInput s1 = ToStartPipelineConfigWithInput s"
        "ToStartPipelineConfigWithoutInput s1 = ToStartPipelineConfigWithoutInput s"
    by (auto simp: only_touches_def)
  have kept: "live s1 p \<and> p \<notin> DisabledLogtailConfig s1 \<and> ConfigNameWithSuffix (configs s1 p) = n"
    if "(n, p) \<in> set (filter P (LogtailConfig s))" for n p
  proof -
    from that rest have "p \<notin> T" by auto
    moreover from that have "(n, p) \<in> set (LogtailConfig s)" by simp
    ultimately show ?thesis
      using same [of p] names [of p] disabled nm lv dis by (auto simp: live_def)
  qed
  have ok: "registry_ok ?s'"
    using d kept by (auto simp: registry_ok_def registered_by_name_def list_all_iff
                       live_def distinct_map_filter)
  have dnr: "disabled_not_registered ?s'"
    using kept by (auto simp: disabled_not_registered_def list_all_iff)
  have slot: "slot_ok ?s' slot" if "slot_ok s slot" for slot
  proof (cases slot)
    case None
    then show ?thesis by (simp add: slot_ok_def)
  next
    case (Some q)
    with that have q: "live s q" "q \<notin> DisabledLogtailConfig s" "q \<notin> snd ` set (LogtailConfig s)"
      by (simp_all add: slot_ok_def)
    with known have "q \<notin> T" by auto
    with q same [of q] disabled have "live s1 q" "q \<notin> DisabledLogtailConfig s1"
      by (auto simp: live_def)
    moreover from q(3) have "q \<notin> snd ` set (filter P (LogtailConfig s))" by auto
    ultimately show ?thesis using Some by (simp add: slot_ok_def live_def)
  qed
  from ok dnr slot [OF slot1] slot [OF slot2] differ slots
  show ?thesis by (simp add: lifecycle_invariant_def)
qed

lemma invariant_untouched:
  assumes inv: "lifecycle_invariant s" and t: "only_touches {} s s1"
  shows "lifecycle_invariant s1"
proof -
  from t have reg: "LogtailConfig s1 = LogtailConfig s" by (simp add: only_touches_def)
  have "lifecycle_invariant (s1\<lparr>LogtailConfig := filter (\<lambda>x. True) (LogtailConfig s)\<rparr>)"
    using inv t by (rule invariant_shrink) simp_all
  then show ?thesis by (simp add: reg [symmetric])
qed

lemma invariant_initial: "initial s \<Longrightarrow> lifecycle_invariant s"
  by (simp add: initial_def lifecycle_invariant_def registry_ok_def registered_by_name_def
        disabled_not_registered_def slot_ok_def)

lemma invariant_stage_with_input:
  "lifecycle_invariant s \<Longrightarrow> fresh s p \<Longrightarrow> live s p \<Longrightarrow>
     lifecycle_invariant (s\<lparr>ToStartPipelineConfigWithInput := Some p\<rparr>)"
  by (auto simp: lifecycle_invariant_def registry_ok_def registered_by_name_def
        disabled_not_registered_def slot_ok_def fresh_def live_def list_all_iff
        split: option.splits)

lemma invariant_stage_without_input:
  "lifecycle_invariant s \<Longrightarrow> fresh s p \<Longrightarrow> live s p \<Longrightarrow>
     lifecycle_invariant (s\<lparr>ToStartPipelineConfigWithoutInput := Some p\<rparr>)"
  by (auto simp: lifecycle_invariant_def registry_ok_def registered_by_name_def
        disabled_not_registered_def slot_ok_def fresh_def live_def list_all_iff
        split: option.splits)


lemma in_update:
  "x \<in> set (AList.update k v al) \<Longrightarrow> x = (k, v) \<or> x \<in> set al"
  by (induction al) (auto split: if_splits)

lemma invariant_register:
  assumes inv: "lifecycle_invariant s"
    and p: "live s p" "p \<notin> DisabledLogtailConfig s"
    and slot1: "slot1 = None \<or> (slot1 = ToStartPipelineConfigWithInput s \<and> slot1 \<noteq> Some p)"
    and slot2: "slot2 = None \<or> (slot2 = ToStartPipelineConfigWithoutInput s \<and> slot2 \<noteq> Some p)"
    and differ: "slot1 = None \<or> slot1 \<noteq> slot2"
  shows "lifecycle_invariant
           (s\<lparr>LogtailConfig := AList.update (ConfigNameWithSuffix (configs s p)) p (LogtailConfig s),
              ToStartPipelineConfigWithInput := slot1,
              ToStartPipelineConfigWithoutInput := slot2\<rparr>)"
proof -
  let ?reg = "AList.update (ConfigNameWithSuffix (configs s p)) p (LogtailConfig s)"
  from inv have d: "distinct (map fst (LogtailConfig s))"
    and nm: "\<forall>(n, q) \<in> set (LogtailConfig s). ConfigNameWithSuffix (configs s q) = n"
    and lv: "\<forall>(n, q) \<in> set (LogtailConfig s). live s q"
    and dis: "\<forall>(n, q) \<in> set (LogtailConfig s). q \<notin> DisabledLogtailConfig s"
    and s1: "slot_ok s (ToStartPipelineConfigWithInput s)"
    and s2: "slot_ok s (ToStartPipelineConfigWithoutInput s)"
    by (auto simp: lifecycle_invariant_def registry_ok_def registered_by_name_def
          disabled_not_registered_def list_all_iff)
  have entry: "ConfigNameWithSuffix (configs s q) = n \<and> live s q \<and> q \<notin> DisabledLogtailConfig s"
    if "(n, q) \<in> set ?reg" for n q
    using in_update [OF that] p nm lv dis by auto
  have slot: "slot_ok s slot \<Longrightarrow> slot \<noteq> Some p \<Longrightarrow> slot_ok (s\<lparr>LogtailConfig := ?reg,
              ToStartPipelineConfigWithInput := slot1,
              ToStartPipelineConfigWithoutInput := slot2\<rparr>) slot" for slot
    by (cases slot) (auto simp: slot_ok_def live_def dest!: in_update)
  have none: "slot_ok s' None" for s' by (simp add: slot_ok_def)
  have "slot_ok (s\<lparr>LogtailConfig := ?reg, ToStartPipelineConfigWithInput := slot1,
              ToStartPipelineConfigWithoutInput := slot2\<rparr>) slot1"
    using slot1 s1 slot none by auto
  moreover have "slot_ok (s\<lparr>LogtailConfig := ?reg, ToStartPipelineConfigWithInput := slot1,
              ToStartPipelineConfigWithoutInput := slot2\<rparr>) slot2"
    using slot2 s2 slot none by auto
  moreover have "distinct (map fst ?reg)" using d by (rule distinct_update)
  ultimately show ?thesis
    using entry differ
    by (auto simp: lifecycle_invariant_def registry_ok_def registered_by_name_def
          disabled_not_registered_def list_all_iff live_def)
qed

lemma invariant_Start:
  assumes inv: "lifecycle_invariant s"
    and ret: "Start configName startProc s = Returned (err, s')"
  shows "lifecycle_invariant s'"
proof -
  from inv have s1: "slot_ok s (ToStartPipelineConfigWithInput s)"
    and s2: "slot_ok s (ToStartPipelineConfigWithoutInput s)"
    and differ: "ToStartPipelineConfigWithInput s = None
          \<or> ToStartPipelineConfigWithInput s \<noteq> ToStartPipelineConfigWithoutInput s"
    by (auto simp: lifecycle_invariant_def)
  have panic: "lifecycle_invariant (panicRecover s)"
    unfolding panicRecover_def using inv only_touches_alarms by (rule invariant_untouched)
  consider
      (with_input) p where "ToStartPipelineConfigWithInput s = Some p"
        "s' = s\<lparr>LogtailConfig := AList.update (ConfigNameWithSuffix (configs s p)) p (LogtailConfig s),
                ToStartPipelineConfigWithInput := None\<rparr>"
    | (without_input) q where "ToStartPipelineConfigWithoutInput s = Some q"
        "s' = s\<lparr>LogtailConfig := AList.update (ConfigNameWithSuffix (configs s q)) q (LogtailConfig s),
                ToStartPipelineConfigWithoutInput := None\<rparr>"
    | (panicked) "s' = panicRecover s"
    | (unmatched) "s' = s"
    using ret
    by (auto simp: Start_def Start_withoutInput_def Start_unmatched_def
             split: option.splits if_splits start_outcome.splits)
  then show ?thesis
  proof cases
    case with_input
    from s1 with_input(1) have p: "live s p" "p \<notin> DisabledLogtailConfig s"
      by (simp_all add: slot_ok_def)
    have "lifecycle_invariant
           (s\<lparr>LogtailConfig := AList.update (ConfigNameWithSuffix (configs s p)) p (LogtailConfig s),
              ToStartPipelineConfigWithInput := None,
              ToStartPipelineConfigWithoutInput := ToStartPipelineConfigWithoutInput s\<rparr>)"
      using inv p differ with_input(1) by (intro invariant_register) auto
    then show ?thesis by (simp add: with_input(2))
  next
    case without_input
    from s2 without_input(1) have q: "live s q" "q \<notin> DisabledLogtailConfig s"
      by (simp_all add: slot_ok_def)
    have "lifecycle_invariant
           (s\<lparr>LogtailConfig := AList.update (ConfigNameWithSuffix (configs s q)) q (LogtailConfig s),
              ToStartPipelineConfigWithInput := ToStartPipelineConfigWithInput s,
              ToStartPipelineConfigWithoutInput := None\<rparr>)"
      using inv q differ without_input(1) by (intro invariant_register) auto
    then show ?thesis by (simp add: without_input(2))
  next
    case panicked
    with panic show ?thesis by simp
  next
    case unmatched
    with inv show ?thesis by simp
  qed
qed

lemma invariant_unregister:
  assumes inv: "lifecycle_invariant s"
    and look: "map_of (LogtailConfig s) configName = Some config"
    and t: "only_touches {config} s s1"
  shows "lifecycle_invariant (s1\<lparr>LogtailConfig := AList.delete configName (LogtailConfig s)\<rparr>)"
proof -
  from inv have nm: "registered_by_name s"
    by (simp add: lifecycle_invariant_def registry_ok_def)
  have "\<forall>(n, p) \<in> set (filter (\<lambda>(k, v). configName \<noteq> k) (LogtailConfig s)). p \<notin> {config}"
    using deleted_name_unregisters [OF nm look] by (force simp: AList.delete_eq)
  moreover have "{config} \<subseteq> snd ` set (LogtailConfig s) \<union> DisabledLogtailConfig s"
    using map_of_SomeD [OF look] by force
  ultimately have "lifecycle_invariant
      (s1\<lparr>LogtailConfig := filter (\<lambda>(k, v). configName \<noteq> k) (LogtailConfig s)\<rparr>)"
    using inv t by (intro invariant_shrink)
  then show ?thesis by (simp add: AList.delete_eq)
qed

lemma invariant_Stop:
  assumes inv: "lifecycle_invariant s"
    and ret: "Stop configName removedFlag stopProc schedule s = Returned (err, s')"
  shows "lifecycle_invariant s'"
proof (cases "map_of (LogtailConfig s) configName")
  case None
  with ret inv show ?thesis by (simp add: Stop_def)
next
  case (Some config)
  let ?s0 = "s\<lparr>goroutines := pending_after config removedFlag (schedule config) s\<rparr>"
  have reg: "LogtailConfig ?s0 = LogtailConfig s" by simp
  from ret Some have ctx: "Context (configs s config) \<noteq> None"
    by (auto simp: Stop_def timeoutStop_def split: option.splits)
  show ?thesis
  proof (cases "stopProc config")
    case DoneFirst
    from Stop_DoneFirst [where stopProc = stopProc and schedule = schedule, OF Some ctx DoneFirst] ret
    have "s' = (DeleteLogstoreConfig config removedFlag ?s0)
                 \<lparr>LogtailConfig := AList.delete configName (LogtailConfig s)\<rparr>"
      by (simp add: Stop_delete_def Let_def)
    with invariant_unregister [OF inv Some only_touches_teardown] show ?thesis by simp
  next
    case DeadlineFirst
    from Stop_DeadlineFirst [where stopProc = stopProc and schedule = schedule, OF Some ctx DeadlineFirst] ret
    have "s' = (quarantine config ?s0)
                 \<lparr>LogtailConfig := AList.delete configName (LogtailConfig s)\<rparr>"
      by (simp add: Stop_unregister_def quarantine_def)
    with invariant_unregister [OF inv Some only_touches_quarantine] show ?thesis by simp
  next
    case StopPanics
    with ret Some ctx show ?thesis by (simp add: Stop_def timeoutStop_live)
  qed
qed

lemma invariant_Delete:
  assumes inv: "lifecycle_invariant s"
  shows "lifecycle_invariant (DeleteLogstoreConfigFromLogtailConfig configName removedFlag s)"
proof (cases "map_of (LogtailConfig s) configName")
  case None
  with inv show ?thesis by (simp add: DeleteLogstoreConfigFromLogtailConfig_def)
next
  case (Some config)
  from invariant_unregister [OF inv Some only_touches_Delete] Some
  show ?thesis by (simp add: DeleteLogstoreConfigFromLogtailConfig_def Let_def)
qed

lemma invariant_goroutineExit:
  assumes inv: "lifecycle_invariant s"
  shows "lifecycle_invariant (goroutineExit config removedFlag s)"
proof (cases "config \<in> DisabledLogtailConfig s")
  case False
  have "lifecycle_invariant (s\<lparr>goroutines := remove1 (config, removedFlag) (goroutines s)\<rparr>)"
    using inv only_touches_goroutines by (rule invariant_untouched)
  with False show ?thesis by (simp add: goroutineExit_def Let_def)
next
  case True
  let ?s0 = "s\<lparr>goroutines := remove1 (config, removedFlag) (goroutines s)\<rparr>"
  let ?s1 = "(DeleteLogstoreConfig config removedFlag ?s0)
               \<lparr>DisabledLogtailConfig := DisabledLogtailConfig (DeleteLogstoreConfig config removedFlag ?s0) - {config}\<rparr>"
  have "only_touches ({} \<union> {config}) s (DeleteLogstoreConfig config removedFlag ?s0)"
    using only_touches_goroutines only_touches_Delete by (rule only_touches_trans)
  then have "only_touches {config} s (DeleteLogstoreConfig config removedFlag ?s0)"
    by simp
  then have t: "only_touches {config} s ?s1"
    by (rule only_touches_enabled)
  from inv True have "\<forall>(n, p) \<in> set (filter (\<lambda>x. True) (LogtailConfig s)). p \<notin> {config}"
    by (auto simp: lifecycle_invariant_def disabled_not_registered_def list_all_iff)
  moreover from True have "{config} \<subseteq> snd ` set (LogtailConfig s) \<union> DisabledLogtailConfig s"
    by simp
  ultimately have "lifecycle_invariant (?s1\<lparr>LogtailConfig := filter (\<lambda>x. True) (LogtailConfig s)\<rparr>)"
    using inv t by (intro invariant_shrink)
  moreover have "?s1\<lparr>LogtailConfig := filter (\<lambda>x. True) (LogtailConfig s)\<rparr> = goroutineExit config removedFlag s"
    using True by (simp add: goroutineExit_def Let_def)
  ultimately show ?thesis by simp
qed

lemma invariant_StopAllPipelines:
  assumes inv: "lifecycle_invariant s"
    and ret: "StopAllPipelines withInput stopProc schedule s = Returned (err, s')"
  shows "lifecycle_invariant s'"
proof -
  from inv have ok: "registry_ok s" by (simp add: lifecycle_invariant_def)
  from StopAllPipelines_run [OF ok ret] obtain s1 where
    t: "only_touches
          (snd ` set (filter (\<lambda>(n, p). withInputPlugin s p = withInput) (LogtailConfig s))) s s1"
    and s': "s' = s1\<lparr>LogtailConfig :=
                        filter (\<lambda>(n, p). withInputPlugin s p \<noteq> withInput) (LogtailConfig s)\<rparr>"
    by blast
  have "\<forall>(n, p) \<in> set (filter (\<lambda>(n, p). withInputPlugin s p \<noteq> withInput) (LogtailConfig s)).
          p \<notin> snd ` set (filter (\<lambda>(n, p). withInputPlugin s p = withInput) (LogtailConfig s))"
    by auto
  moreover have "snd ` set (filter (\<lambda>(n, p). withInputPlugin s p = withInput) (LogtailConfig s))
                   \<subseteq> snd ` set (LogtailConfig s) \<union> DisabledLogtailConfig s"
    by auto
  ultimately show ?thesis
    unfolding s' using inv t by (intro invariant_shrink)
qed

lemma reachable_invariant: "reachable s \<Longrightarrow> lifecycle_invariant s"
proof (induction rule: reachable.induct)
  case (at_start s)
  then show ?case by (rule invariant_initial)
next
  case (after_step s s')
  from after_step.hyps(2) after_step.IH show ?case
  proof (cases rule: lifecycle_step.cases)
    case (stage_with_input p)
    then show ?thesis using after_step.IH by (simp add: invariant_stage_with_input)
  next
    case (stage_without_input p)
    then show ?thesis using after_step.IH by (simp add: invariant_stage_without_input)
  next
    case (start configName startProc err)
    with after_step.IH show ?thesis by (rule invariant_Start)
  next
    case (stop configName removedFlag stopProc schedule err)
    with after_step.IH show ?thesis by (rule invariant_Stop)
  next
    case (stop_all withInput stopProc schedule err)
    with after_step.IH show ?thesis by (rule invariant_StopAllPipelines)
  next
    case (delete configName removedFlag)
    then show ?thesis using after_step.IH by (simp add: invariant_Delete)
  next
    case (goroutine_exit config removedFlag)
    then show ?thesis using after_step.IH by (simp add: invariant_goroutineExit)
  qed
qed

text \<open>
  In a reachable state every registered pipeline has its context and its runner,
  is not in the disabled set and stands under its own name-with-suffix, and the
  registry has every key once: what the theorems on \<open>Stop\<close> and
  \<open>StopAllPipelines\<close> ask of the state they start in.
\<close>

lemma reachable_registered:
  assumes "reachable s" and "map_of (LogtailConfig s) configName = Some config"
  shows "Context (configs s config) \<noteq> None \<and> PluginRunner (configs s config) \<noteq> None
         \<and> config \<notin> DisabledLogtailConfig s \<and> registered_by_name s \<and> registry_ok s"
proof -
  from assms(1) have inv: "lifecycle_invariant s" by (rule reachable_invariant)
  from assms(2) have "(configName, config) \<in> set (LogtailConfig s)" by (rule map_of_SomeD)
  with inv show ?thesis
    by (auto simp: lifecycle_invariant_def registry_ok_def disabled_not_registered_def
          live_def list_all_iff)
qed

lemma Stop_states_last:
  "Stop configName removedFlag stopProc schedule s = Returned (err, s') \<Longrightarrow>
     last (Stop_states configName removedFlag stopProc schedule s) = s'"
  by (auto simp: Stop_def Stop_states_def split: option.splits outcome.splits if_splits)

lemma reachable_example_manager: "reachable example_manager"
proof -
  let ?s1 = "empty_manager\<lparr>ToStartPipelineConfigWithoutInput := Some 1\<rparr>"
  let ?s2 = "example_manager\<lparr>LogtailConfig := [(''p1/1'', 1)]\<rparr>"
  let ?s3 = "?s2\<lparr>ToStartPipelineConfigWithInput := Some 2\<rparr>"
  have "initial empty_manager"
    by (simp add: initial_def empty_manager_def example_manager_def)
  then have r0: "reachable empty_manager" by (rule at_start)
  have "fresh empty_manager 1" "live empty_manager 1"
    by (simp_all add: fresh_def live_def empty_manager_def example_manager_def example_configs_def)
  then have "lifecycle_step empty_manager ?s1" by (rule stage_without_input)
  with r0 have r1: "reachable ?s1" by (rule after_step)
  have "Start ''p1/1'' start_returns ?s1 = Returned (None, ?s2)"
    by (simp add: Start_def Start_withoutInput_def start_returns_def empty_manager_def
          example_manager_def example_configs_def)
  then have "lifecycle_step ?s1 ?s2" by (rule start)
  with r1 have r2: "reachable ?s2" by (rule after_step)
  have "fresh ?s2 2" "live ?s2 2"
    by (simp_all add: fresh_def live_def example_manager_def example_configs_def)
  then have "lifecycle_step ?s2 ?s3" by (rule stage_with_input)
  with r2 have r3: "reachable ?s3" by (rule after_step)
  have "Start ''p2/1'' start_returns ?s3 = Returned (None, example_manager)"
    by (simp add: Start_def start_returns_def example_manager_def example_configs_def)
  then have "lifecycle_step ?s3 example_manager" by (rule start)
  with r3 show ?thesis by (rule after_step)
qed

lemma Stop_example_times_out:
  "Stop ''p1/1'' False stop_hangs stays_pending example_manager = Returned (None, timed_out_manager)"
  by (simp add: Stop_def timeoutStop_def pending_after_def stays_pending_def stop_hangs_def
        timed_out_manager_def
        quarantined_manager_def example_manager_def example_configs_def)

lemma reachable_timed_out_manager: "reachable timed_out_manager"
  using reachable_example_manager stop [OF Stop_example_times_out] by (rule after_step)

text \<open>
  The state with \<open>p1\<close> quarantined and no goroutine left to reconcile it is a
  reachable state as well.
\<close>

lemma reachable_abandoned_manager: "reachable abandoned_manager"
proof -
  have "Stop ''p1/1'' False stop_hangs exits_in_window example_manager
          = Returned (None, abandoned_manager)"
    by (simp add: Stop_def timeoutStop_def pending_after_def stop_hangs_def exits_in_window_def
          abandoned_manager_def example_manager_def example_configs_def)
  then have "lifecycle_step example_manager abandoned_manager" by (rule stop)
  with reachable_example_manager show ?thesis by (rule after_step)
qed

text \<open>
  C9, as claimed: no pipeline is at once in the disabled set and in the registry,
  also between the lock-protected blocks of one \<open>Stop\<close>.  On a timeout \<open>Stop\<close>
  first puts the pipeline into the disabled set under \<open>DisabledLogtailConfigLock\<close>
  and only then takes \<open>LogtailConfigLock\<close> to delete the name: in the state
  between the two blocks, reached from a reachable state, \<open>p1\<close> is in both.
\<close>

theorem disabled_and_registered_counterexample:
  "reachable example_manager
   \<and> Stop_states ''p1/1'' False stop_hangs stays_pending example_manager
       = [example_manager, example_manager\<lparr>goroutines := [(1, False)]\<rparr>,
          quarantined_manager, timed_out_manager]
   \<and> 1 \<in> DisabledLogtailConfig quarantined_manager
   \<and> map_of (LogtailConfig quarantined_manager) ''p1/1'' = Some 1
   \<and> \<not> disabled_not_registered quarantined_manager"
proof -
  have "Stop_states ''p1/1'' False stop_hangs stays_pending example_manager
       = [example_manager, example_manager\<lparr>goroutines := [(1, False)]\<rparr>,
          quarantined_manager, timed_out_manager]"
    by (simp add: Stop_states_def timeoutStop_def pending_after_def stays_pending_def
          stop_hangs_def timed_out_manager_def
          quarantined_manager_def example_manager_def example_configs_def)
  moreover have "1 \<in> DisabledLogtailConfig quarantined_manager"
    "map_of (LogtailConfig quarantined_manager) ''p1/1'' = Some 1"
    "\<not> disabled_not_registered quarantined_manager"
    by (simp_all add: disabled_not_registered_def quarantined_manager_def quarantine_def
          example_manager_def)
  ultimately show ?thesis using reachable_example_manager by simp
qed

text \<open>
  C9, amended: at every state that the lifecycle reaches from the state at
  process start by complete steps (the loader staging a new live pipeline; a
  call of \<open>Start\<close>, \<open>Stop\<close>, \<open>StopAllPipelines\<close> or
  \<open>DeleteLogstoreConfigFromLogtailConfig\<close> that returns; a goroutine of
  \<open>timeoutStop\<close> running its last block), no registered pipeline is in the
  disabled set.
\<close>

theorem reachable_disabled_not_registered:
  "reachable s \<Longrightarrow> disabled_not_registered s"
proof -
  assume "reachable s"
  then have "lifecycle_invariant s" by (rule reachable_invariant)
  then show ?thesis by (simp add: lifecycle_invariant_def)
qed

theorem reachable_disabled_not_registered_witness:
  "reachable timed_out_manager
   \<and> LogtailConfig timed_out_manager = [(''p2/1'', 2)]
   \<and> DisabledLogtailConfig timed_out_manager = {1}
   \<and> disabled_not_registered timed_out_manager"
proof -
  have "LogtailConfig timed_out_manager = [(''p2/1'', 2)]"
    "DisabledLogtailConfig timed_out_manager = {1}"
    by (simp_all add: timed_out_manager_def quarantined_manager_def Stop_unregister_def
          quarantine_def example_manager_def)
  with reachable_timed_out_manager
    reachable_disabled_not_registered [OF reachable_timed_out_manager]
  show ?thesis by simp
qed

end
